theory Spec2Isabelle
  imports Main
begin

section \<open>Strings\<close>

text \<open>
  A JavaScript string is a sequence of UTF-16 code units; a code unit is modelled by its
  number.  \<open>ascii\<close> turns a literal of the source into its code units.
\<close>

type_synonym jsstring = "nat list"

definition ascii :: "string \<Rightarrow> jsstring" where
  "ascii s = map of_char s"

text \<open>\<^verbatim>\<open>String.prototype.startsWith\<close> and \<^verbatim>\<open>String.prototype.includes\<close>.\<close>

fun startsWith :: "'a list \<Rightarrow> 'a list \<Rightarrow> bool" where
  "startsWith s [] = True"
| "startsWith [] (p # ps) = False"
| "startsWith (c # s) (p # ps) = (c = p \<and> startsWith s ps)"

fun includes_str :: "'a list \<Rightarrow> 'a list \<Rightarrow> bool" where
  "includes_str [] p = (p = [])"
| "includes_str (c # s) p = (startsWith (c # s) p \<or> includes_str s p)"

text \<open>
  \<^verbatim>\<open>toLowerCase\<close>, on the letters A to Z; other code units are left as they are, also
  those that the Unicode tables of the engine map to a lower-case letter.  The result
  only decides whether the message handler prints its "Mentioned" line.
\<close>

definition toLowerCase :: "jsstring \<Rightarrow> jsstring" where
  "toLowerCase s = map (\<lambda>c. if 65 \<le> c \<and> c \<le> 90 then c + 32 else c) s"

text \<open>\<^verbatim>\<open>this.username.split('').reverse().join('')\<close>\<close>

definition reversed :: "jsstring \<Rightarrow> jsstring" where
  "reversed s = rev s"


section \<open>Process-wide state of ass.js\<close>

text \<open>The counters of \<^verbatim>\<open>const stats\<close> (the start time \<^verbatim>\<open>uptime\<close> is left out).\<close>

record stats =
  sent :: nat
  joined :: nat
  kicked :: nat
  timeout :: nat
  failed :: nat
  proxiesFound :: nat
  proxiesWorking :: nat
  messagesSent :: nat
  commandsExecuted :: nat
  reconnects :: nat

text \<open>
  What the program prints or appends to its log file, by content (colours and layout are
  left out).  \<open>Bot_msg i m\<close> is a line attributed to the bot with index \<open>i\<close>.
\<close>

datatype logmsg =
    Connected_msg
  | Spawned_msg
  | LowHealth_msg int
  | Kicked_msg jsstring
  | Ended_msg jsstring
  | Error_msg jsstring
  | Mentioned_msg jsstring
  | Registering_msg
  | LoggingIn_msg
  | Premium_msg
  | MaxReconnects_msg
  | Reconnecting_msg nat nat nat
  | Executed_msg jsstring
  | CreateFailed_msg
  | Broadcasted_msg nat jsstring
  | ExecutedOn_msg nat jsstring
  | Stopping_msg
  | FinalStats_msg stats
  | SessionEnded_msg
  | AllSpawned_msg
  | QuickHelp_msg
  | Progress_msg nat nat
  | Bot_msg nat logmsg

text \<open>The controls \<^verbatim>\<open>randomAction\<close> sets, and the four actions it chooses from.\<close>

datatype direction = Forward | Back | Left | Right

datatype control = Jump | Walk direction

datatype random_action = JumpOn | JumpOff | LookAround | WalkFor direction

text \<open>
  What the program does to the outside: calls on a mineflayer bot (named by the handle
  \<^verbatim>\<open>createBot\<close> returned), the ping socket, the screen and the log file.
\<close>

datatype effect =
    CreateBot nat jsstring "jsstring option"
  | BotChat nat jsstring
  | BotQuit nat
  | BotControl nat control bool
  | BotLook nat
  | PingSocket nat
  | ConsoleLog logmsg
  | SaveLog logmsg
  | DisplayStats stats

text \<open>
  Work that has been handed to the event loop and has not run yet: the timers of
  \<^verbatim>\<open>setTimeout\<close> (with their delay) and the promise of \<^verbatim>\<open>pingServer\<close>.  The number
  names the \<^verbatim>\<open>UltraBot\<close> object the closure captured as \<^verbatim>\<open>this\<close>.
\<close>

datatype deferred =
    ReconnectTimer nat nat
  | PingInFlight nat
  | JoinDelayTimer nat nat
  | RandomActionTimer nat
  | ReleaseControlTimer nat direction
  | FinalStatsTimer
  | SpawnBotTimer nat
  | QuickHelpTimer

text \<open>
  The fields of \<^verbatim>\<open>class UltraBot\<close> that its methods read or write after construction.
  \<open>bot_obj\<close> is \<^verbatim>\<open>this.bot\<close>: the handle of the current mineflayer bot, if one was created.
\<close>

record UltraBot =
  username :: jsstring
  proxy :: "jsstring option"
  index :: nat
  connected :: bool
  messages :: "jsstring list"
  position :: "(int \<times> int \<times> int) option"
  health :: int
  food :: int
  reconnectAttempts :: nat
  maxReconnects :: nat
  joinDelay :: nat
  bot_obj :: "nat option"

text \<open>
  The whole state: the module variables \<^verbatim>\<open>stats\<close> and \<^verbatim>\<open>isRunning\<close>, the \<^verbatim>\<open>UltraBot\<close>
  objects that exist (\<open>objs\<close>, an object is named by its position), the array
  \<^verbatim>\<open>cmdInterface.bots\<close> of references to them, the variables \<^verbatim>\<open>main\<close> shares with its
  closure \<^verbatim>\<open>spawnBot\<close>, the deferred work and the effects so far.
\<close>

record world =
  stats :: stats
  isRunning :: bool
  objs :: "UltraBot list"
  bots :: "nat list"
  botIndex :: nat
  maxBots :: nat
  delay :: nat
  workingProxies :: "jsstring list"
  pending :: "deferred list"
  effects :: "effect list"
  next_handle :: nat

datatype jsval = Undefined | Num nat

definition the_bot :: "world \<Rightarrow> nat \<Rightarrow> UltraBot" where
  "the_bot w this = objs w ! this"

definition set_bot :: "nat \<Rightarrow> UltraBot \<Rightarrow> world \<Rightarrow> world" where
  "set_bot this b w = w\<lparr>objs := (objs w)[this := b]\<rparr>"

definition emit :: "effect \<Rightarrow> world \<Rightarrow> world" where
  "emit e w = w\<lparr>effects := effects w @ [e]\<rparr>"

definition enqueue :: "deferred \<Rightarrow> world \<Rightarrow> world" where
  "enqueue d w = w\<lparr>pending := pending w @ [d]\<rparr>"

definition displayStats :: "world \<Rightarrow> world" where
  "displayStats w = emit (DisplayStats (stats w)) w"

definition saveLog :: "logmsg \<Rightarrow> world \<Rightarrow> world" where
  "saveLog m w = emit (SaveLog m) w"

definition console_log :: "logmsg \<Rightarrow> world \<Rightarrow> world" where
  "console_log m w = emit (ConsoleLog m) w"

text \<open>\<^verbatim>\<open>UltraBot.log\<close>\<close>

definition log :: "nat \<Rightarrow> logmsg \<Rightarrow> world \<Rightarrow> world" where
  "log this m w = emit (ConsoleLog (Bot_msg (index (the_bot w this)) m)) w"

definition upd_stats :: "(stats \<Rightarrow> stats) \<Rightarrow> world \<Rightarrow> world" where
  "upd_stats f w = w\<lparr>stats := f (stats w)\<rparr>"


section \<open>UltraBot\<close>

text \<open>
  \<^verbatim>\<open>pingServer\<close> opens a socket and returns a promise; \<^verbatim>\<open>connect\<close> attaches to it the
  two callbacks \<open>ping_resolved\<close> and \<open>ping_rejected\<close> below.
\<close>

definition connect :: "nat \<Rightarrow> world \<Rightarrow> world" where
  "connect this w = enqueue (PingInFlight this) (emit (PingSocket this) w)"

text \<open>
  \<^verbatim>\<open>actualConnect\<close>.  \<open>throws\<close> says whether \<^verbatim>\<open>mineflayer.createBot\<close> throws.  When it
  returns, \<^verbatim>\<open>setupListeners\<close> registers the handlers of \<open>on_event\<close> on the new bot.
\<close>

definition actualConnect :: "nat \<Rightarrow> bool \<Rightarrow> world \<Rightarrow> world" where
  "actualConnect this throws w =
     (if throws then
        saveLog (Bot_msg (index (the_bot w this)) CreateFailed_msg)
          (displayStats (upd_stats (\<lambda>s. s\<lparr>failed := failed s + 1\<rparr>) w))
      else
        let b = the_bot w this;
            h = next_handle w;
            w1 = emit (CreateBot h (username b) (proxy b)) (w\<lparr>next_handle := h + 1\<rparr>);
            w2 = set_bot this (b\<lparr>bot_obj := Some h\<rparr>) w1
        in displayStats (upd_stats (\<lambda>s. s\<lparr>sent := sent s + 1\<rparr>) w2))"

definition ping_resolved :: "nat \<Rightarrow> world \<Rightarrow> world" where
  "ping_resolved this w = enqueue (JoinDelayTimer this (joinDelay (the_bot w this))) w"

definition ping_rejected :: "nat \<Rightarrow> bool \<Rightarrow> world \<Rightarrow> world" where
  "ping_rejected this throws w = actualConnect this throws w"

definition attemptReconnect :: "nat \<Rightarrow> world \<Rightarrow> world" where
  "attemptReconnect this w =
     (let b = the_bot w this in
      if reconnectAttempts b \<ge> maxReconnects b then log this MaxReconnects_msg w
      else
        let b' = b\<lparr>reconnectAttempts := reconnectAttempts b + 1\<rparr>;
            w1 = set_bot this b' w;
            w2 = upd_stats (\<lambda>s. s\<lparr>reconnects := reconnects s + 1\<rparr>) w1;
            d = min (5000 * reconnectAttempts b') 30000;
            w3 = log this (Reconnecting_msg d (reconnectAttempts b') (maxReconnects b')) w2
        in enqueue (ReconnectTimer this d) w3)"

text \<open>The callback of the timer \<^verbatim>\<open>attemptReconnect\<close> sets.\<close>

definition reconnect_timer :: "nat \<Rightarrow> world \<Rightarrow> world" where
  "reconnect_timer this w = (if isRunning w then connect this w else w)"

text \<open>\<^verbatim>\<open>this.bot.chat(text)\<close> inside a handler of the current bot.\<close>

definition chat :: "nat \<Rightarrow> jsstring \<Rightarrow> world \<Rightarrow> world" where
  "chat this text w =
     (case bot_obj (the_bot w this) of
        Some h \<Rightarrow> emit (BotChat h text) w
      | None \<Rightarrow> w)"

text \<open>The events mineflayer emits for which \<^verbatim>\<open>setupListeners\<close> registers a handler
  (the two \<^verbatim>\<open>physicsTick\<close> handlers write controls and packets only and are left out),
  and the rejection of the proxy connection in \<^verbatim>\<open>options.connect\<close>.\<close>

datatype event =
    Login
  | Spawn "int \<times> int \<times> int"
  | Health int int
  | Kicked jsstring
  | End "jsstring option"
  | Error jsstring
  | Message jsstring
  | ProxyConnectFailed

definition on_login :: "nat \<Rightarrow> world \<Rightarrow> world" where
  "on_login this w =
     (let w1 = set_bot this ((the_bot w this)\<lparr>connected := True\<rparr>) w;
          w2 = upd_stats (\<lambda>s. s\<lparr>joined := joined s + 1\<rparr>) w1;
          w3 = displayStats w2;
          w4 = log this Connected_msg w3;
          w5 = saveLog (Bot_msg (index (the_bot w4 this)) Connected_msg) w4
      in set_bot this ((the_bot w5 this)\<lparr>reconnectAttempts := 0\<rparr>) w5)"

definition on_spawn :: "nat \<Rightarrow> int \<times> int \<times> int \<Rightarrow> world \<Rightarrow> world" where
  "on_spawn this p w =
     (let w1 = log this Spawned_msg w;
          w2 = set_bot this ((the_bot w1 this)\<lparr>position := Some p\<rparr>) w1
      in enqueue (RandomActionTimer this) w2)"

definition on_health :: "nat \<Rightarrow> int \<Rightarrow> int \<Rightarrow> world \<Rightarrow> world" where
  "on_health this h f w =
     (let w1 = set_bot this ((the_bot w this)\<lparr>health := h, food := f\<rparr>) w
      in if h < 10 then log this (LowHealth_msg h) w1 else w1)"

definition on_kicked :: "nat \<Rightarrow> jsstring \<Rightarrow> world \<Rightarrow> world" where
  "on_kicked this reason w =
     (let w1 = set_bot this ((the_bot w this)\<lparr>connected := False\<rparr>) w;
          w2 = upd_stats (\<lambda>s. s\<lparr>kicked := kicked s + 1\<rparr>) w1;
          w3 = displayStats w2;
          w4 = log this (Kicked_msg reason) w3;
          w5 = saveLog (Bot_msg (index (the_bot w4 this)) (Kicked_msg reason)) w4
      in attemptReconnect this w5)"

definition on_end :: "nat \<Rightarrow> jsstring option \<Rightarrow> world \<Rightarrow> world" where
  "on_end this reason w =
     (let w1 = set_bot this ((the_bot w this)\<lparr>connected := False\<rparr>) w;
          w2 = upd_stats (\<lambda>s. s\<lparr>timeout := timeout s + 1\<rparr>) w1;
          w3 = displayStats w2;
          r = (case reason of None \<Rightarrow> ascii ''Unknown''
               | Some t \<Rightarrow> if t = [] then ascii ''Unknown'' else t);
          w4 = log this (Ended_msg r) w3
      in attemptReconnect this w4)"

definition on_error :: "nat \<Rightarrow> jsstring \<Rightarrow> world \<Rightarrow> world" where
  "on_error this m w =
     saveLog (Bot_msg (index (the_bot w this)) (Error_msg m)) (log this (Error_msg m) w)"

definition on_message :: "nat \<Rightarrow> jsstring \<Rightarrow> world \<Rightarrow> world" where
  "on_message this text w =
     (let b = the_bot w this;
          w1 = set_bot this (b\<lparr>messages := messages b @ [text]\<rparr>) w;
          w2 = (if includes_str (toLowerCase text) (toLowerCase (username b))
                then log this (Mentioned_msg text) w1 else w1);
          w3 = (if includes_str text (ascii ''/register'')
                then let password = reversed (username b)
                     in log this Registering_msg
                          (chat this (ascii ''/register '' @ password @ ascii '' '' @ password) w2)
                else w2);
          w4 = (if includes_str text (ascii ''/login'')
                then let password = reversed (username b)
                     in log this LoggingIn_msg (chat this (ascii ''/login '' @ password) w3)
                else w3);
          w5 = (if includes_str text (ascii ''Please, login with the command'')
                then let password = reversed (username b)
                     in chat this (ascii ''/login '' @ password) w4
                else w4)
      in if includes_str text (ascii ''premium'')
         then log this Premium_msg (chat this (ascii ''/nlogin'') w5)
         else w5)"

definition on_proxy_failed :: "world \<Rightarrow> world" where
  "on_proxy_failed w = displayStats (upd_stats (\<lambda>s. s\<lparr>failed := failed s + 1\<rparr>) w)"

fun on_event :: "nat \<Rightarrow> event \<Rightarrow> world \<Rightarrow> world" where
  "on_event this Login w = on_login this w"
| "on_event this (Spawn p) w = on_spawn this p w"
| "on_event this (Health h f) w = on_health this h f w"
| "on_event this (Kicked reason) w = on_kicked this reason w"
| "on_event this (End reason) w = on_end this reason w"
| "on_event this (Error m) w = on_error this m w"
| "on_event this (Message text) w = on_message this text w"
| "on_event this ProxyConnectFailed w = on_proxy_failed w"

text \<open>
  \<^verbatim>\<open>randomAction\<close>, the callback of the timer the spawn handler sets.  \<open>has_entity\<close> says
  whether \<^verbatim>\<open>this.bot.entity\<close> is set at that moment, \<open>choice\<close> is the action (and, for the
  fourth, the direction) the two calls of \<^verbatim>\<open>Math.random\<close> select.  The fourth action sets
  a timer of one second that releases the control again, on whatever bot is current
  then (\<open>release_control\<close>).  A connected session has a bot, so the case \<open>None\<close> does not
  occur.
\<close>

definition randomAction :: "nat \<Rightarrow> bool \<Rightarrow> random_action \<Rightarrow> world \<Rightarrow> world" where
  "randomAction this has_entity choice w =
     (let b = the_bot w this in
      if \<not> connected b \<or> \<not> has_entity then w
      else case bot_obj b of
        None \<Rightarrow> w
      | Some h \<Rightarrow>
          (case choice of
             JumpOn \<Rightarrow> emit (BotControl h Jump True) w
           | JumpOff \<Rightarrow> emit (BotControl h Jump False) w
           | LookAround \<Rightarrow> emit (BotLook h) w
           | WalkFor d \<Rightarrow>
               enqueue (ReleaseControlTimer this d) (emit (BotControl h (Walk d) True) w)))"

definition release_control :: "nat \<Rightarrow> direction \<Rightarrow> world \<Rightarrow> world" where
  "release_control this d w =
     (case bot_obj (the_bot w this) of
        Some h \<Rightarrow> emit (BotControl h (Walk d) False) w
      | None \<Rightarrow> w)"

definition sendChat :: "nat \<Rightarrow> jsstring \<Rightarrow> world \<Rightarrow> world" where
  "sendChat this message w =
     (let b = the_bot w this in
      case bot_obj b of
        Some h \<Rightarrow>
          if connected b then
            displayStats (upd_stats (\<lambda>s. s\<lparr>messagesSent := messagesSent s + 1\<rparr>)
              (emit (BotChat h message) w))
          else w
      | None \<Rightarrow> w)"

definition executeCommand_bot :: "nat \<Rightarrow> jsstring \<Rightarrow> world \<Rightarrow> world" where
  "executeCommand_bot this command w =
     (let b = the_bot w this in
      case bot_obj b of
        Some h \<Rightarrow>
          if connected b then
            log this (Executed_msg command)
              (displayStats (upd_stats (\<lambda>s. s\<lparr>commandsExecuted := commandsExecuted s + 1\<rparr>)
                (emit (BotChat h command) w)))
          else w
      | None \<Rightarrow> w)"

definition disconnect :: "nat \<Rightarrow> world \<Rightarrow> world" where
  "disconnect this w =
     (case bot_obj (the_bot w this) of
        Some h \<Rightarrow> set_bot this ((the_bot w this)\<lparr>connected := False\<rparr>) (emit (BotQuit h) w)
      | None \<Rightarrow> w)"


section \<open>UltraCommandInterface\<close>

text \<open>
  \<^verbatim>\<open>broadcast\<close> and \<^verbatim>\<open>executeCommand\<close> have no \<^verbatim>\<open>return\<close> with a value: the call evaluates
  to \<^verbatim>\<open>undefined\<close>, and the number of bots reached goes to the screen and the log file.
  \<open>broadcast_one\<close> and \<open>executeCommand_one\<close> are the bodies of the two \<^verbatim>\<open>forEach\<close> loops,
  threading the local counter.
\<close>

definition broadcast_one :: "jsstring \<Rightarrow> nat \<Rightarrow> nat \<times> world \<Rightarrow> nat \<times> world" where
  "broadcast_one message member acc =
     (case acc of (count, w) \<Rightarrow>
        if connected (the_bot w member) then (count + 1, sendChat member message w)
        else (count, w))"

definition broadcast :: "jsstring \<Rightarrow> world \<Rightarrow> jsval \<times> world" where
  "broadcast message w =
     (if message = [] then (Undefined, w)
      else
        case fold (broadcast_one message) (bots w) (0, w) of (count, w1) \<Rightarrow>
          (Undefined,
           saveLog (Broadcasted_msg count message)
             (console_log (Broadcasted_msg count message) w1)))"

definition executeCommand_one :: "jsstring \<Rightarrow> nat \<Rightarrow> nat \<times> world \<Rightarrow> nat \<times> world" where
  "executeCommand_one command member acc =
     (case acc of (count, w) \<Rightarrow>
        if connected (the_bot w member) then (count + 1, executeCommand_bot member command w)
        else (count, w))"

definition executeCommand :: "jsstring \<Rightarrow> world \<Rightarrow> jsval \<times> world" where
  "executeCommand command w =
     (if command = [] then (Undefined, w)
      else
        case fold (executeCommand_one command) (bots w) (0, w) of (count, w1) \<Rightarrow>
          (Undefined,
           saveLog (ExecutedOn_msg count command)
             (console_log (ExecutedOn_msg count command) w1)))"

definition stopAll :: "world \<Rightarrow> world" where
  "stopAll w =
     (let w1 = console_log Stopping_msg w;
          w2 = w1\<lparr>isRunning := False\<rparr>;
          w3 = fold disconnect (bots w2) w2;
          w4 = w3\<lparr>bots := []\<rparr>
      in enqueue FinalStatsTimer w4)"

definition showFinalStats :: "world \<Rightarrow> world" where
  "showFinalStats w = saveLog SessionEnded_msg (console_log (FinalStats_msg (stats w)) w)"


section \<open>Spawning (main of ass.js)\<close>

text \<open>
  \<^verbatim>\<open>workingProxies[botIndex % workingProxies.length] || null\<close>: with no proxy the index is
  \<^verbatim>\<open>NaN\<close> and the element \<^verbatim>\<open>undefined\<close>; an empty string is falsy.
\<close>

definition pick_proxy :: "jsstring list \<Rightarrow> nat \<Rightarrow> jsstring option" where
  "pick_proxy ps i =
     (if ps = [] then None
      else let p = ps ! (i mod length ps) in if p = [] then None else Some p)"

text \<open>
  The constructor of \<^verbatim>\<open>UltraBot\<close>: the new object gets the next free name, and
  \<^verbatim>\<open>this.connect()\<close> runs.  \<open>jd\<close> is the random \<^verbatim>\<open>joinDelay\<close> of \<^verbatim>\<open>setupRandomization\<close>.
\<close>

definition new_UltraBot ::
    "jsstring \<Rightarrow> jsstring option \<Rightarrow> nat \<Rightarrow> nat \<Rightarrow> world \<Rightarrow> nat \<times> world" where
  "new_UltraBot uname prx idx jd w =
     (let this = length (objs w);
          b = \<lparr>username = uname, proxy = prx, index = idx, connected = False, messages = [],
               position = None, health = 20, food = 20, reconnectAttempts = 0,
               maxReconnects = 3, joinDelay = jd, bot_obj = None\<rparr>
      in (this, connect this (w\<lparr>objs := objs w @ [b]\<rparr>)))"

text \<open>
  \<^verbatim>\<open>spawnBot\<close>.  \<open>uname\<close> is what \<^verbatim>\<open>generateUsername()\<close> returns, \<open>rnd\<close> the random part
  of the delay before the next call.
\<close>

definition spawnBot :: "jsstring \<Rightarrow> nat \<Rightarrow> nat \<Rightarrow> world \<Rightarrow> world" where
  "spawnBot uname jd rnd w =
     (if \<not> isRunning w \<or> botIndex w \<ge> maxBots w then
        (if botIndex w \<ge> maxBots w
         then enqueue QuickHelpTimer (console_log AllSpawned_msg w) else w)
      else
        case new_UltraBot uname (pick_proxy (workingProxies w) (botIndex w))
               (botIndex w + 1) jd w of
          (member, w1) \<Rightarrow>
            let w2 = w1\<lparr>bots := bots w1 @ [member]\<rparr>;
                w3 = w2\<lparr>botIndex := botIndex w2 + 1\<rparr>;
                w4 = console_log (Progress_msg (botIndex w3) (maxBots w3)) w3
            in if botIndex w4 < maxBots w4
               then enqueue (SpawnBotTimer (delay w4 + rnd)) w4 else w4)"


section \<open>The event loop\<close>

text \<open>
  One turn of the event loop: a deferred callback runs (with what the outside decides at
  that moment: whether \<^verbatim>\<open>createBot\<close> throws, the generated name and delays, the random
  action), mineflayer
  emits an event on the bot of an \<^verbatim>\<open>UltraBot\<close>, or the operator's line reaches
  \<^verbatim>\<open>broadcast\<close>, \<^verbatim>\<open>executeCommand\<close> or \<^verbatim>\<open>stopAll\<close>.  A callback runs only if it is
  pending, a handler only on an object whose listeners were registered.
\<close>

datatype input =
    ReconnectFires nat nat
  | PingResolves nat
  | PingRejects nat bool
  | JoinDelayFires nat nat bool
  | RandomActionFires nat bool random_action
  | ReleaseControlFires nat direction
  | FinalStatsFires
  | SpawnBotFires nat jsstring nat nat
  | QuickHelpFires
  | Emits nat event
  | Say jsstring
  | Cmd jsstring
  | Stop

definition take_pending :: "deferred \<Rightarrow> world \<Rightarrow> world" where
  "take_pending d w = w\<lparr>pending := remove1 d (pending w)\<rparr>"

fun step :: "input \<Rightarrow> world \<Rightarrow> world" where
  "step (ReconnectFires this d) w =
     (if ReconnectTimer this d \<in> set (pending w)
      then reconnect_timer this (take_pending (ReconnectTimer this d) w) else w)"
| "step (PingResolves this) w =
     (if PingInFlight this \<in> set (pending w)
      then ping_resolved this (take_pending (PingInFlight this) w) else w)"
| "step (PingRejects this throws) w =
     (if PingInFlight this \<in> set (pending w)
      then ping_rejected this throws (take_pending (PingInFlight this) w) else w)"
| "step (JoinDelayFires this d throws) w =
     (if JoinDelayTimer this d \<in> set (pending w)
      then actualConnect this throws (take_pending (JoinDelayTimer this d) w) else w)"
| "step (RandomActionFires this has_entity choice) w =
     (if RandomActionTimer this \<in> set (pending w)
      then randomAction this has_entity choice (take_pending (RandomActionTimer this) w)
      else w)"
| "step (ReleaseControlFires this d) w =
     (if ReleaseControlTimer this d \<in> set (pending w)
      then release_control this d (take_pending (ReleaseControlTimer this d) w) else w)"
| "step FinalStatsFires w =
     (if FinalStatsTimer \<in> set (pending w)
      then showFinalStats (take_pending FinalStatsTimer w) else w)"
| "step (SpawnBotFires d uname jd rnd) w =
     (if SpawnBotTimer d \<in> set (pending w)
      then spawnBot uname jd rnd (take_pending (SpawnBotTimer d) w) else w)"
| "step QuickHelpFires w =
     (if QuickHelpTimer \<in> set (pending w)
      then console_log QuickHelp_msg (take_pending QuickHelpTimer w) else w)"
| "step (Emits this ev) w =
     (if this < length (objs w) \<and> bot_obj (the_bot w this) \<noteq> None
      then on_event this ev w else w)"
| "step (Say message) w = snd (broadcast message w)"
| "step (Cmd command) w = snd (executeCommand command w)"
| "step Stop w = stopAll w"

definition run :: "input list \<Rightarrow> world \<Rightarrow> world" where
  "run ins w = fold step ins w"

text \<open>
  The state when \<^verbatim>\<open>main\<close> has set the first \<^verbatim>\<open>spawnBot\<close> timer: \<open>n\<close> bots to spawn with
  the delay \<open>dl\<close>, \<open>found\<close> proxies collected, of which the list \<open>ps\<close> works.
\<close>

definition init_world :: "nat \<Rightarrow> nat \<Rightarrow> nat \<Rightarrow> jsstring list \<Rightarrow> world" where
  "init_world n dl found ps =
     \<lparr>stats = \<lparr>sent = 0, joined = 0, kicked = 0, timeout = 0, failed = 0,
               proxiesFound = found, proxiesWorking = length ps, messagesSent = 0,
               commandsExecuted = 0, reconnects = 0\<rparr>,
      isRunning = True, objs = [], bots = [], botIndex = 0, maxBots = n, delay = dl,
      workingProxies = ps, pending = [SpawnBotTimer 1000], effects = [], next_handle = 0\<rparr>"


section \<open>botattack.js\<close>


definition on_login_EnhancedBot :: "nat \<Rightarrow> world \<Rightarrow> world" where
  "on_login_EnhancedBot this w =
     (let w1 = set_bot this ((the_bot w this)\<lparr>connected := True\<rparr>) w;
          w2 = upd_stats (\<lambda>s. s\<lparr>joined := joined s + 1\<rparr>) w1
      in log this Connected_msg (displayStats w2))"

definition on_kicked_EnhancedBot :: "nat \<Rightarrow> jsstring \<Rightarrow> world \<Rightarrow> world" where
  "on_kicked_EnhancedBot this reason w =
     (let w1 = set_bot this ((the_bot w this)\<lparr>connected := False\<rparr>) w;
          w2 = upd_stats (\<lambda>s. s\<lparr>kicked := kicked s + 1\<rparr>) w1
      in log this (Kicked_msg reason) (displayStats w2))"

definition on_end_EnhancedBot :: "nat \<Rightarrow> world \<Rightarrow> world" where
  "on_end_EnhancedBot this w =
     (let w1 = set_bot this ((the_bot w this)\<lparr>connected := False\<rparr>) w;
          w2 = upd_stats (\<lambda>s. s\<lparr>timeout := timeout s + 1\<rparr>) w1
      in log this (Ended_msg []) (displayStats w2))"

definition on_message_EnhancedBot :: "nat \<Rightarrow> jsstring \<Rightarrow> world \<Rightarrow> world" where
  "on_message_EnhancedBot this text w =
     (let b = the_bot w this;
          w1 = set_bot this (b\<lparr>messages := messages b @ [text]\<rparr>) w;
          w2 = (if includes_str text (ascii ''/register'')
                then let password = reversed (username b)
                     in log this Registering_msg
                          (chat this (ascii ''/register '' @ password @ ascii '' '' @ password) w1)
                else w1);
          w3 = (if includes_str text (ascii ''/login'')
                then let password = reversed (username b)
                     in log this LoggingIn_msg (chat this (ascii ''/login '' @ password) w2)
                else w2)
      in if includes_str text (ascii ''premium'')
         then log this Premium_msg (chat this (ascii ''/nlogin'') w3)
         else w3)"







section \<open>Collecting proxies\<close>

text \<open>
  \<^verbatim>\<open>\d\<close> is an ASCII digit.  \<^verbatim>\<open>trim\<close> removes the white space and line terminators of
  ECMAScript from both ends.
\<close>

definition is_digit :: "nat \<Rightarrow> bool" where
  "is_digit c = (48 \<le> c \<and> c \<le> 57)"

definition is_space :: "nat \<Rightarrow> bool" where
  "is_space c =
     (c \<in> {9, 10, 11, 12, 13, 32, 160, 5760, 8232, 8233, 8239, 8287, 12288, 65279}
      \<or> (8192 \<le> c \<and> c \<le> 8202))"

definition trim :: "jsstring \<Rightarrow> jsstring" where
  "trim s = rev (dropWhile is_space (rev (dropWhile is_space s)))"

text \<open>\<^verbatim>\<open>data.split('\n')\<close>: there is always a first piece, possibly empty.\<close>

fun split_nl :: "jsstring \<Rightarrow> jsstring list" where
  "split_nl [] = [[]]"
| "split_nl (c # s) =
     (if c = 10 then [] # split_nl s
      else case split_nl s of l # ls \<Rightarrow> (c # l) # ls | [] \<Rightarrow> [[c]])"

text \<open>
  The regular expression \<^verbatim>\<open>/^\d+\.\d+\.\d+\.\d+:\d+$/\<close>, read from the left.  \<open>digits1\<close>
  is \<^verbatim>\<open>\d+\<close>: it takes the longest run of digits, which must not be empty, and gives
  the rest; the character the expression wants next is never a digit, so no shorter
  run can match.  \<open>lit c\<close> is the single character \<open>c\<close>.
\<close>

definition digits1 :: "jsstring \<Rightarrow> jsstring option" where
  "digits1 s =
     (case s of [] \<Rightarrow> None
      | c # r \<Rightarrow> if is_digit c then Some (dropWhile is_digit r) else None)"

definition lit :: "nat \<Rightarrow> jsstring \<Rightarrow> jsstring option" where
  "lit c s = (case s of [] \<Rightarrow> None | x # r \<Rightarrow> if x = c then Some r else None)"

text \<open>\<open>group_then x\<close> is \<^verbatim>\<open>\d+\<close> followed by the character \<open>x\<close>.\<close>

definition group_then :: "nat \<Rightarrow> jsstring \<Rightarrow> jsstring option" where
  "group_then x s = Option.bind (digits1 s) (lit x)"

definition test_ip_port :: "jsstring \<Rightarrow> bool" where
  "test_ip_port s =
     (Option.bind
        (Option.bind
           (Option.bind (Option.bind (group_then 46 s) (group_then 46)) (group_then 46))
           (group_then 58))
        digits1 = Some [])"

text \<open>The body of the \<^verbatim>\<open>end\<close> handler in \<^verbatim>\<open>fetchFromUrl\<close>, on the data received.\<close>

definition parse_proxies :: "jsstring \<Rightarrow> jsstring list" where
  "parse_proxies data =
     filter test_ip_port
       (map trim (filter (\<lambda>line. includes_str line (ascii '':'')) (split_nl data)))"

text \<open>
  \<^verbatim>\<open>fetchFromUrl\<close>: the promise resolves with the parsed lines of the response, or
  rejects when the request fails (\<open>None\<close>).  The argument is what the network gives for
  the URL.
\<close>

definition fetchFromUrl :: "jsstring option \<Rightarrow> jsstring list option" where
  "fetchFromUrl response = map_option parse_proxies response"

text \<open>\<^verbatim>\<open>[...new Set(xs)]\<close>: the first occurrence of each element, in order.\<close>

definition uniq :: "'a list \<Rightarrow> 'a list" where
  "uniq xs = fold (\<lambda>x acc. if x \<in> set acc then acc else acc @ [x]) xs []"

text \<open>
  \<^verbatim>\<open>allProxies.push(...proxies)\<close> is a call with one argument for each element of
  \<^verbatim>\<open>proxies\<close>.  An engine accepts only so many arguments in one call (V8 with its default
  stack, on the order of a hundred thousand) and throws a \<^verbatim>\<open>RangeError\<close> beyond that;
  \<open>spread_limit\<close> is that number and \<open>None\<close> the exception.
\<close>

definition push_spread :: "nat \<Rightarrow> 'a list \<Rightarrow> 'a list \<Rightarrow> 'a list option" where
  "push_spread spread_limit allProxies proxies =
     (if length proxies \<le> spread_limit then Some (allProxies @ proxies) else None)"

text \<open>
  One round of the loop of \<^verbatim>\<open>fetchProxiesWithProgress\<close>.  The \<^verbatim>\<open>await\<close> and the \<^verbatim>\<open>push\<close> are
  both inside the \<^verbatim>\<open>try\<close>, and the \<^verbatim>\<open>catch\<close>, which holds only the comment
  \<^verbatim>\<open>// Skip failed sources\<close>, is empty: after a rejected request and after a \<^verbatim>\<open>push\<close> that
  throws, \<^verbatim>\<open>allProxies\<close> is what it was.
\<close>

definition try_source :: "nat \<Rightarrow> jsstring option \<Rightarrow> jsstring list \<Rightarrow> jsstring list" where
  "try_source spread_limit response allProxies =
     (case fetchFromUrl response of
        None \<Rightarrow> allProxies
      | Some proxies \<Rightarrow>
          (case push_spread spread_limit allProxies proxies of
             None \<Rightarrow> allProxies
           | Some allProxies' \<Rightarrow> allProxies'))"

text \<open>
  \<^verbatim>\<open>fetchProxiesWithProgress\<close>, given the responses to its URLs in order.  The spinner and
  the file of proxies are left out.
\<close>

definition fetchProxiesWithProgress ::
    "nat \<Rightarrow> jsstring option list \<Rightarrow> world \<Rightarrow> jsstring list \<times> world" where
  "fetchProxiesWithProgress spread_limit responses w =
     (let allProxies = fold (try_source spread_limit) responses [];
          allProxies' = uniq allProxies
      in (allProxies', upd_stats (\<lambda>s. s\<lparr>proxiesFound := length allProxies'\<rparr>) w))"


section \<open>Observations\<close>

text \<open>What a run shows from outside: the three counters that count how sessions ended,
  the chat calls (bot handle and text) and the quit calls among the effects.\<close>

definition ending_counters :: "stats \<Rightarrow> nat \<times> nat \<times> nat" where
  "ending_counters s = (failed s, kicked s, timeout s)"

fun chat_calls :: "effect list \<Rightarrow> (nat \<times> jsstring) list" where
  "chat_calls [] = []"
| "chat_calls (BotChat h t # es) = (h, t) # chat_calls es"
| "chat_calls (e # es) = chat_calls es"

fun quit_calls :: "effect list \<Rightarrow> nat list" where
  "quit_calls [] = []"
| "quit_calls (BotQuit h # es) = h # quit_calls es"
| "quit_calls (e # es) = quit_calls es"

text \<open>
  One reply for each pattern the text contains, in the order of the handler: the
  property the message handlers are compared with.
\<close>

definition replies_UltraBot :: "jsstring \<Rightarrow> jsstring \<Rightarrow> jsstring list" where
  "replies_UltraBot uname text =
     (if includes_str text (ascii ''/register'')
      then [ascii ''/register '' @ rev uname @ ascii '' '' @ rev uname] else []) @
     (if includes_str text (ascii ''/login'') then [ascii ''/login '' @ rev uname] else []) @
     (if includes_str text (ascii ''Please, login with the command'')
      then [ascii ''/login '' @ rev uname] else []) @
     (if includes_str text (ascii ''premium'') then [ascii ''/nlogin''] else [])"

definition replies_EnhancedBot :: "jsstring \<Rightarrow> jsstring \<Rightarrow> jsstring list" where
  "replies_EnhancedBot uname text =
     (if includes_str text (ascii ''/register'')
      then [ascii ''/register '' @ rev uname @ ascii '' '' @ rev uname] else []) @
     (if includes_str text (ascii ''/login'') then [ascii ''/login '' @ rev uname] else []) @
     (if includes_str text (ascii ''premium'') then [ascii ''/nlogin''] else [])"

definition authme_prompt :: jsstring where
  "authme_prompt = ascii ''Please, login with the command /login <password>''"

text \<open>The members \<^verbatim>\<open>broadcast\<close> reaches, the handle of a member's bot (0 when it has
  none), and the fact that a connected member has a bot: \<^verbatim>\<open>connected\<close> becomes true
  only in the login handler of \<^verbatim>\<open>this.bot\<close>.\<close>

definition connected_members :: "world \<Rightarrow> nat list" where
  "connected_members w = filter (\<lambda>m. connected (the_bot w m)) (bots w)"

definition handle_of :: "world \<Rightarrow> nat \<Rightarrow> nat" where
  "handle_of w m = (case bot_obj (the_bot w m) of Some h \<Rightarrow> h | None \<Rightarrow> 0)"

definition members_wf :: "world \<Rightarrow> bool" where
  "members_wf w =
     list_all (\<lambda>m. connected (the_bot w m) \<longrightarrow> bot_obj (the_bot w m) \<noteq> None) (bots w)"


section \<open>Invariants and relations between states\<close>

text \<open>No session has made more reconnect attempts than it is allowed.\<close>

definition cap_ok :: "world \<Rightarrow> bool" where
  "cap_ok w = list_all (\<lambda>b. reconnectAttempts b \<le> maxReconnects b) (objs w)"


text \<open>What every turn other than a spawn leaves as it is: the number of sessions, their
  proxies and limits, and the variables of the spawner; an attempt counter that grows
  stays within the limit.\<close>

definition same_sessions :: "world \<Rightarrow> world \<Rightarrow> bool" where
  "same_sessions w w' =
     (length (objs w') = length (objs w) \<and> botIndex w' = botIndex w \<and>
      workingProxies w' = workingProxies w \<and>
      (\<forall>i<length (objs w).
         proxy (objs w' ! i) = proxy (objs w ! i) \<and>
         maxReconnects (objs w' ! i) = maxReconnects (objs w ! i) \<and>
         (reconnectAttempts (objs w' ! i) \<le> reconnectAttempts (objs w ! i) \<or>
          reconnectAttempts (objs w' ! i) \<le> maxReconnects (objs w ! i))))"

text \<open>
  A connected session has a bot, and the members of the pool are objects that exist.
  \<open>keeps_wf w w'\<close>: going from \<open>w\<close> to \<open>w'\<close> creates no object, adds no member and
  connects no session that has no bot.
\<close>

definition sessions_wf :: "world \<Rightarrow> bool" where
  "sessions_wf w =
     (list_all (\<lambda>b. connected b \<longrightarrow> bot_obj b \<noteq> None) (objs w) \<and>
      list_all (\<lambda>m. m < length (objs w)) (bots w))"

definition keeps_wf :: "world \<Rightarrow> world \<Rightarrow> bool" where
  "keeps_wf w w' =
     (length (objs w') = length (objs w) \<and> set (bots w') \<subseteq> set (bots w) \<and>
      (\<forall>i<length (objs w).
         (connected (objs w ! i) \<longrightarrow> bot_obj (objs w ! i) \<noteq> None) \<longrightarrow>
         (connected (objs w' ! i) \<longrightarrow> bot_obj (objs w' ! i) \<noteq> None)))"

text \<open>The two events that end a session.\<close>

definition is_ending :: "event \<Rightarrow> bool" where
  "is_ending ev = (case ev of Kicked r \<Rightarrow> True | End r \<Rightarrow> True | _ \<Rightarrow> False)"

text \<open>
  Deferred work that leads to a new connection of the session \<open>this\<close>.  A session is
  dormant when it is not connected, has used up its reconnect attempts and no such work
  is pending.  \<open>quiet this w w'\<close>: going from \<open>w\<close> to \<open>w'\<close> neither connects the session
  nor changes its counters nor adds such work.
\<close>

definition wakes :: "nat \<Rightarrow> deferred \<Rightarrow> bool" where
  "wakes this d =
     (case d of ReconnectTimer t x \<Rightarrow> t = this | PingInFlight t \<Rightarrow> t = this
      | JoinDelayTimer t x \<Rightarrow> t = this | _ \<Rightarrow> False)"

definition dormant :: "nat \<Rightarrow> world \<Rightarrow> bool" where
  "dormant this w =
     (this < length (objs w) \<and> \<not> connected (the_bot w this) \<and>
      maxReconnects (the_bot w this) \<le> reconnectAttempts (the_bot w this) \<and>
      \<not> list_ex (wakes this) (pending w))"

definition quiet :: "nat \<Rightarrow> world \<Rightarrow> world \<Rightarrow> bool" where
  "quiet this w w' =
     (length (objs w) \<le> length (objs w') \<and>
      (connected (the_bot w' this) \<longrightarrow> connected (the_bot w this)) \<and>
      maxReconnects (the_bot w' this) = maxReconnects (the_bot w this) \<and>
      reconnectAttempts (the_bot w' this) = reconnectAttempts (the_bot w this) \<and>
      (\<forall>d\<in>set (pending w'). wakes this d \<longrightarrow> d \<in> set (pending w)))"

text \<open>
  The shape of the claim in words: four nonempty groups of digits separated by dots, a
  colon, a nonempty group of digits.  \<open>endpoints\<close> is the set of the trimmed lines of
  the answered sources that have this shape.
\<close>

definition digit_run :: "jsstring \<Rightarrow> bool" where
  "digit_run a = (a \<noteq> [] \<and> list_all is_digit a)"

definition ip_port_shape :: "jsstring \<Rightarrow> bool" where
  "ip_port_shape s =
     (\<exists>a b c d p. digit_run a \<and> digit_run b \<and> digit_run c \<and> digit_run d \<and> digit_run p \<and>
        s = a @ [46] @ b @ [46] @ c @ [46] @ d @ [58] @ p)"

definition endpoints :: "jsstring option list \<Rightarrow> jsstring set" where
  "endpoints responses =
     {trim l |l d. Some d \<in> set responses \<and> l \<in> set (split_nl d) \<and> ip_port_shape (trim l)}"

text \<open>No answered source has more lines of that shape than one call takes arguments.\<close>

definition sources_within :: "nat \<Rightarrow> jsstring option list \<Rightarrow> bool" where
  "sources_within spread_limit responses =
     list_all (\<lambda>response. case response of
                  None \<Rightarrow> True
                | Some d \<Rightarrow> length (parse_proxies d) \<le> spread_limit) responses"


section \<open>Example runs\<close>

text \<open>One bot that has logged in.\<close>

definition one_joined :: world where
  "one_joined =
     run [SpawnBotFires 1000 (ascii ''Storm1'') 0 0, PingRejects 0 False, Emits 0 Login]
       (init_world 1 3000 0 [])"

text \<open>One bot whose session ended once and whose second mineflayer bot was created.\<close>

definition one_rejoining :: world where
  "one_rejoining =
     run [Emits 0 (End None), ReconnectFires 0 5000, PingRejects 0 False] one_joined"

text \<open>Three bots; the first and the third have logged in.\<close>

definition three_bots :: world where
  "three_bots =
     run [SpawnBotFires 1000 (ascii ''Storm1'') 0 0, SpawnBotFires 3000 (ascii ''Ghost2'') 0 0,
          SpawnBotFires 3000 (ascii ''Ninja3'') 0 0,
          PingRejects 0 False, PingRejects 1 False, PingRejects 2 False,
          Emits 0 Login, Emits 2 Login]
       (init_world 3 3000 0 [])"

text \<open>One bot whose three reconnect attempts are used up: each time the session ended
  the timer fired and a new mineflayer bot was created.\<close>

definition exhausted :: world where
  "exhausted =
     run [Emits 0 (End None), ReconnectFires 0 5000, PingRejects 0 False,
          Emits 0 (End None), ReconnectFires 0 10000, PingRejects 0 False,
          Emits 0 (Kicked (ascii ''bye'')), ReconnectFires 0 15000, PingRejects 0 False]
       one_joined"

text \<open>One bot that made two reconnect attempts and is kicked from the third mineflayer
  bot before it has logged in; the connection has not closed yet.\<close>

definition kicked_at_cap :: world where
  "kicked_at_cap =
     run [Emits 0 (End None), ReconnectFires 0 5000, PingRejects 0 False,
          Emits 0 (End None), ReconnectFires 0 10000, PingRejects 0 False,
          Emits 0 (Kicked (ascii ''bye''))]
       one_joined"




text \<open>A bot whose ping is in flight when the operator stops the pool: after the ping
  fails, and after it succeeds and the join delay has passed.\<close>

definition stop_then_ping_fails :: world where
  "stop_then_ping_fails =
     run [SpawnBotFires 1000 (ascii ''Storm1'') 0 0, Stop, PingRejects 0 False]
       (init_world 1 3000 0 [])"

definition stop_then_ping_succeeds :: world where
  "stop_then_ping_succeeds =
     run [SpawnBotFires 1000 (ascii ''Storm1'') 250 0, Stop, PingResolves 0,
          JoinDelayFires 0 250 False]
       (init_world 1 3000 0 [])"

text \<open>The answers of three proxy sources; the second request fails.\<close>

definition source_a :: jsstring where
  "source_a =
     ascii ''1.2.3.4:80'' @ [10] @ ascii '' bad line'' @ [10] @ ascii ''  5.6.7.8:1080'' @ [13, 10]"

definition source_b :: jsstring where
  "source_b = ascii ''5.6.7.8:1080'' @ [10] @ ascii ''host:1'' @ [10] @ ascii ''1.2.3.4:80x''"

text \<open>The answer of a source that lists one proxy \<open>n\<close> times, a line each.\<close>

definition repeated_source :: "nat \<Rightarrow> jsstring" where
  "repeated_source n = concat (replicate n (ascii ''1.2.3.4:80'' @ [10]))"



section \<open>Basic facts\<close>

lemma emit_sel [simp]:
  "stats (emit e w) = stats w" "isRunning (emit e w) = isRunning w" "objs (emit e w) = objs w"
  "bots (emit e w) = bots w" "botIndex (emit e w) = botIndex w" "maxBots (emit e w) = maxBots w"
  "delay (emit e w) = delay w" "workingProxies (emit e w) = workingProxies w"
  "pending (emit e w) = pending w" "effects (emit e w) = effects w @ [e]"
  "next_handle (emit e w) = next_handle w" "the_bot (emit e w) i = the_bot w i"
  by (simp_all add: emit_def the_bot_def)

lemma enqueue_sel [simp]:
  "stats (enqueue d w) = stats w" "isRunning (enqueue d w) = isRunning w"
  "objs (enqueue d w) = objs w"
  "bots (enqueue d w) = bots w" "botIndex (enqueue d w) = botIndex w"
  "maxBots (enqueue d w) = maxBots w"
  "delay (enqueue d w) = delay w" "workingProxies (enqueue d w) = workingProxies w"
  "pending (enqueue d w) = pending w @ [d]" "effects (enqueue d w) = effects w"
  "next_handle (enqueue d w) = next_handle w" "the_bot (enqueue d w) i = the_bot w i"
  by (simp_all add: enqueue_def the_bot_def)

lemma set_bot_sel [simp]:
  "stats (set_bot i b w) = stats w" "isRunning (set_bot i b w) = isRunning w"
  "objs (set_bot i b w) = (objs w)[i := b]"
  "bots (set_bot i b w) = bots w" "botIndex (set_bot i b w) = botIndex w"
  "maxBots (set_bot i b w) = maxBots w"
  "delay (set_bot i b w) = delay w" "workingProxies (set_bot i b w) = workingProxies w"
  "pending (set_bot i b w) = pending w" "effects (set_bot i b w) = effects w"
  "next_handle (set_bot i b w) = next_handle w"
  by (simp_all add: set_bot_def)

lemma upd_stats_sel [simp]:
  "stats (upd_stats f w) = f (stats w)" "isRunning (upd_stats f w) = isRunning w"
  "objs (upd_stats f w) = objs w"
  "bots (upd_stats f w) = bots w" "botIndex (upd_stats f w) = botIndex w"
  "maxBots (upd_stats f w) = maxBots w"
  "delay (upd_stats f w) = delay w" "workingProxies (upd_stats f w) = workingProxies w"
  "pending (upd_stats f w) = pending w" "effects (upd_stats f w) = effects w"
  "next_handle (upd_stats f w) = next_handle w" "the_bot (upd_stats f w) i = the_bot w i"
  by (simp_all add: upd_stats_def the_bot_def)

lemma the_bot_set_bot [simp]:
  "the_bot (set_bot i b w) j = (if i = j \<and> i < length (objs w) then b else the_bot w j)"
  by (cases "i < length (objs w)") (auto simp: the_bot_def nth_list_update list_update_beyond not_less)

lemma displayStats_sel [simp]:
  "stats (displayStats w) = stats w" "isRunning (displayStats w) = isRunning w"
  "objs (displayStats w) = objs w" "bots (displayStats w) = bots w"
  "botIndex (displayStats w) = botIndex w" "maxBots (displayStats w) = maxBots w"
  "delay (displayStats w) = delay w" "workingProxies (displayStats w) = workingProxies w"
  "pending (displayStats w) = pending w"
  "effects (displayStats w) = effects w @ [DisplayStats (stats w)]"
  "next_handle (displayStats w) = next_handle w" "the_bot (displayStats w) i = the_bot w i"
  by (simp_all add: displayStats_def)

lemma saveLog_sel [simp]:
  "stats (saveLog m w) = stats w" "isRunning (saveLog m w) = isRunning w"
  "objs (saveLog m w) = objs w" "bots (saveLog m w) = bots w"
  "botIndex (saveLog m w) = botIndex w" "maxBots (saveLog m w) = maxBots w"
  "delay (saveLog m w) = delay w" "workingProxies (saveLog m w) = workingProxies w"
  "pending (saveLog m w) = pending w"
  "effects (saveLog m w) = effects w @ [SaveLog m]"
  "next_handle (saveLog m w) = next_handle w" "the_bot (saveLog m w) i = the_bot w i"
  by (simp_all add: saveLog_def)

lemma console_log_sel [simp]:
  "stats (console_log m w) = stats w" "isRunning (console_log m w) = isRunning w"
  "objs (console_log m w) = objs w" "bots (console_log m w) = bots w"
  "botIndex (console_log m w) = botIndex w" "maxBots (console_log m w) = maxBots w"
  "delay (console_log m w) = delay w" "workingProxies (console_log m w) = workingProxies w"
  "pending (console_log m w) = pending w"
  "effects (console_log m w) = effects w @ [ConsoleLog m]"
  "next_handle (console_log m w) = next_handle w" "the_bot (console_log m w) i = the_bot w i"
  by (simp_all add: console_log_def)

lemma log_sel [simp]:
  "stats (log t m w) = stats w" "isRunning (log t m w) = isRunning w"
  "objs (log t m w) = objs w" "bots (log t m w) = bots w"
  "botIndex (log t m w) = botIndex w" "maxBots (log t m w) = maxBots w"
  "delay (log t m w) = delay w" "workingProxies (log t m w) = workingProxies w"
  "pending (log t m w) = pending w"
  "effects (log t m w) = effects w @ [ConsoleLog (Bot_msg (index (the_bot w t)) m)]"
  "next_handle (log t m w) = next_handle w" "the_bot (log t m w) i = the_bot w i"
  by (simp_all add: log_def)

lemma chat_calls_append [simp]: "chat_calls (es @ fs) = chat_calls es @ chat_calls fs"
  by (induction es rule: chat_calls.induct) simp_all

lemma quit_calls_append [simp]: "quit_calls (es @ fs) = quit_calls es @ quit_calls fs"
  by (induction es rule: quit_calls.induct) simp_all

lemma attemptReconnect_ending [simp]:
  "ending_counters (stats (attemptReconnect this w)) = ending_counters (stats w)"
  by (simp add: attemptReconnect_def Let_def ending_counters_def)

lemma chat_sel [simp]:
  "stats (chat t x w) = stats w" "objs (chat t x w) = objs w" "the_bot (chat t x w) i = the_bot w i"
  "pending (chat t x w) = pending w"
  by (simp_all add: chat_def split: option.splits)

lemma on_message_stats [simp]: "stats (on_message this text w) = stats w"
  by (simp add: on_message_def Let_def)

lemma chat_effects:
  "bot_obj (the_bot w this) = Some h \<Longrightarrow> effects (chat this x w) = effects w @ [BotChat h x]"
  by (simp add: chat_def)


lemmas run_defs = run_def init_world_def spawnBot_def new_UltraBot_def connect_def
  pick_proxy_def take_pending_def ping_rejected_def ping_resolved_def actualConnect_def
  reconnect_timer_def on_login_def on_kicked_def on_end_def on_message_def on_error_def
  attemptReconnect_def emit_def enqueue_def set_bot_def the_bot_def upd_stats_def
  displayStats_def saveLog_def console_log_def log_def chat_def reversed_def Let_def
  stopAll_def disconnect_def

lemma one_joined_sel:
  "objs one_joined =
     [\<lparr>username = ascii ''Storm1'', proxy = None, index = 1, connected = True, messages = [],
       position = None, health = 20, food = 20, reconnectAttempts = 0, maxReconnects = 3,
       joinDelay = 0, bot_obj = Some 0\<rparr>]"
  "bots one_joined = [0]"
  "pending one_joined = []"
  "isRunning one_joined"
  "chat_calls (effects one_joined) = []"
  "sent (stats one_joined) = 1" "ending_counters (stats one_joined) = (0, 0, 0)"
  "joined (stats one_joined) = 1"
  by (simp_all add: one_joined_def run_defs ending_counters_def)

lemma three_bots_sel:
  "connected (the_bot three_bots 0)" "\<not> connected (the_bot three_bots (Suc 0))"
  "connected (the_bot three_bots 2)"
  "bot_obj (the_bot three_bots 0) = Some 0" "bot_obj (the_bot three_bots (Suc 0)) = Some 1"
  "bot_obj (the_bot three_bots 2) = Some 2"
  "bots three_bots = [0, 1, 2]"
  "chat_calls (effects three_bots) = []"
  "quit_calls (effects three_bots) = []"
  "messagesSent (stats three_bots) = 0"
  by (simp_all add: three_bots_def run_defs)


section \<open>Counting how a session ended\<close>

text \<open>
  C1.  Every event changes the counters \<^verbatim>\<open>failed\<close>, \<^verbatim>\<open>kicked\<close> and \<^verbatim>\<open>timeout\<close> as its
  kind says, whatever happened before: the kicked handler adds one to \<^verbatim>\<open>kicked\<close> only,
  the end handler adds one to \<^verbatim>\<open>timeout\<close> only, a rejected proxy connection adds one to
  \<^verbatim>\<open>failed\<close> only, and every other event leaves the three alone; \<^verbatim>\<open>actualConnect\<close> adds
  one to \<^verbatim>\<open>failed\<close> when \<^verbatim>\<open>createBot\<close> throws and nothing otherwise.  The handlers of
  \<^verbatim>\<open>EnhancedBot\<close> count the same way.  No handler looks at whether the session was counted
  already.
\<close>

theorem ending_event_counts_one_counter:
  "ending_counters (stats (on_event this ev w)) =
     (case ending_counters (stats w) of (f, k, t) \<Rightarrow>
        (case ev of Kicked r \<Rightarrow> (f, k + 1, t) | End r \<Rightarrow> (f, k, t + 1)
         | ProxyConnectFailed \<Rightarrow> (f + 1, k, t) | _ \<Rightarrow> (f, k, t))) \<and>
   ending_counters (stats (actualConnect this throws w)) =
     (case ending_counters (stats w) of (f, k, t) \<Rightarrow> (if throws then f + 1 else f, k, t)) \<and>
   ending_counters (stats (on_kicked_EnhancedBot this reason w)) =
     (case ending_counters (stats w) of (f, k, t) \<Rightarrow> (f, k + 1, t)) \<and>
   ending_counters (stats (on_end_EnhancedBot this w)) =
     (case ending_counters (stats w) of (f, k, t) \<Rightarrow> (f, k, t + 1))"
proof -
  have 1: "ending_counters (stats (on_event this ev w)) =
     (case ending_counters (stats w) of (f, k, t) \<Rightarrow>
        (case ev of Kicked r \<Rightarrow> (f, k + 1, t) | End r \<Rightarrow> (f, k, t + 1)
         | ProxyConnectFailed \<Rightarrow> (f + 1, k, t) | _ \<Rightarrow> (f, k, t)))"
  proof (cases ev)
    case (Kicked r)
    then show ?thesis by (simp add: on_kicked_def Let_def) (simp add: ending_counters_def)
  next
    case (End r)
    then show ?thesis by (simp add: on_end_def Let_def) (simp add: ending_counters_def)
  qed (simp_all add: ending_counters_def on_login_def on_spawn_def on_health_def on_error_def
        on_proxy_failed_def Let_def)
  have 2: "ending_counters (stats (actualConnect this throws w)) =
     (case ending_counters (stats w) of (f, k, t) \<Rightarrow> (if throws then f + 1 else f, k, t))"
    by (simp add: actualConnect_def ending_counters_def Let_def)
  have 3: "ending_counters (stats (on_kicked_EnhancedBot this reason w)) =
     (case ending_counters (stats w) of (f, k, t) \<Rightarrow> (f, k + 1, t))"
    by (simp add: on_kicked_EnhancedBot_def ending_counters_def Let_def)
  have 4: "ending_counters (stats (on_end_EnhancedBot this w)) =
     (case ending_counters (stats w) of (f, k, t) \<Rightarrow> (f, k, t + 1))"
    by (simp add: on_end_EnhancedBot_def ending_counters_def Let_def)
  from 1 2 3 4 show ?thesis by blast
qed

text \<open>
  C1 as stated fails: one bot is created and logs in, the server kicks it and the
  connection closes.  The one session is counted under \<^verbatim>\<open>kicked\<close> and under \<^verbatim>\<open>timeout\<close>.
\<close>

theorem kick_then_end_counted_twice:
  "sent (stats (run [Emits 0 (Kicked (ascii ''bye'')), Emits 0 (End None)] one_joined)) = 1 \<and>
   ending_counters (stats (run [Emits 0 (Kicked (ascii ''bye'')), Emits 0 (End None)] one_joined))
     = (0, 1, 1)"
  by (simp add: one_joined_def run_defs ending_counters_def)


section \<open>The auto-responder\<close>

text \<open>
  C2.  The message handler sends one chat call for each pattern the text contains, in
  the order of its \<^verbatim>\<open>if\<close> statements, to the current bot: \<^verbatim>\<open>UltraBot\<close> tests four
  patterns and \<^verbatim>\<open>EnhancedBot\<close> three, so at most four and three replies.  For the prompt
  "Please, login with the command /login <password>", which contains the second and
  the third pattern, \<^verbatim>\<open>UltraBot\<close> sends "/login " and the reversed user name twice, and
  \<^verbatim>\<open>EnhancedBot\<close> once.
\<close>

theorem auto_responder_replies_per_pattern:
  assumes "bot_obj (the_bot w this) = Some h"
  shows "chat_calls (effects (on_event this (Message text) w)) =
           chat_calls (effects w) @
           map (Pair h) (replies_UltraBot (username (the_bot w this)) text) \<and>
         chat_calls (effects (on_message_EnhancedBot this text w)) =
           chat_calls (effects w) @
           map (Pair h) (replies_EnhancedBot (username (the_bot w this)) text) \<and>
         length (replies_UltraBot u text) \<le> 4 \<and> length (replies_EnhancedBot u text) \<le> 3 \<and>
         replies_UltraBot u authme_prompt =
           [ascii ''/login '' @ rev u, ascii ''/login '' @ rev u] \<and>
         replies_EnhancedBot u authme_prompt = [ascii ''/login '' @ rev u]"
proof -
  let ?b = "the_bot w this"
  have h: "bot_obj (the_bot (set_bot this (?b\<lparr>messages := messages ?b @ [text]\<rparr>) w) this)
             = Some h"
    using assms by simp
  have 1: "chat_calls (effects (on_event this (Message text) w)) =
           chat_calls (effects w) @ map (Pair h) (replies_UltraBot (username ?b) text)"
    by (simp add: on_message_def Let_def chat_effects h assms replies_UltraBot_def
          reversed_def)
  have 2: "chat_calls (effects (on_message_EnhancedBot this text w)) =
           chat_calls (effects w) @ map (Pair h) (replies_EnhancedBot (username ?b) text)"
    by (simp add: on_message_EnhancedBot_def Let_def chat_effects h assms
          replies_EnhancedBot_def reversed_def)
  have 3: "length (replies_UltraBot u text) \<le> 4 \<and> length (replies_EnhancedBot u text) \<le> 3"
    by (simp add: replies_UltraBot_def replies_EnhancedBot_def)
  have 4: "replies_UltraBot u authme_prompt =
             [ascii ''/login '' @ rev u, ascii ''/login '' @ rev u]"
    by (simp add: replies_UltraBot_def authme_prompt_def ascii_def)
  have 5: "replies_EnhancedBot u authme_prompt = [ascii ''/login '' @ rev u]"
    by (simp add: replies_EnhancedBot_def authme_prompt_def ascii_def)
  from 1 2 3 4 5 show ?thesis by blast
qed

theorem auto_responder_replies_per_pattern_witness:
  "bot_obj (the_bot one_joined 0) = Some 0 \<and>
   chat_calls (effects (on_event 0 (Message (ascii ''type /register or /login'')) one_joined)) =
     [(0, ascii ''/register 1mrotS 1mrotS''), (0, ascii ''/login 1mrotS'')]"
proof -
  have h: "bot_obj (the_bot one_joined 0) = Some 0"
    by (simp add: the_bot_def one_joined_sel)
  have u: "username (the_bot one_joined 0) = ascii ''Storm1''"
    by (simp add: the_bot_def one_joined_sel)
  show ?thesis
    using h auto_responder_replies_per_pattern [OF h, of "ascii ''type /register or /login''"]
    by (simp add: u one_joined_sel replies_UltraBot_def ascii_def)
qed

text \<open>
  C2 as stated fails: a logged-in \<^verbatim>\<open>UltraBot\<close> named Storm1 receives the prompt of the
  claim and answers it with two chat calls.
\<close>

theorem authme_prompt_two_replies:
  "chat_calls (effects (run [Emits 0 (Message authme_prompt)] one_joined)) =
     [(0, ascii ''/login 1mrotS''), (0, ascii ''/login 1mrotS'')]"
  by (simp add: one_joined_def run_defs authme_prompt_def ascii_def)


section \<open>Login\<close>

text \<open>
  C9.  The login handler of \<^verbatim>\<open>UltraBot\<close> adds exactly one to \<^verbatim>\<open>stats.joined\<close>, changes
  no other counter, marks the session connected and sets \<^verbatim>\<open>reconnectAttempts\<close> to 0,
  whatever its value was.  The login handler of \<^verbatim>\<open>EnhancedBot\<close>, which has no reconnect
  counter, adds exactly one to \<^verbatim>\<open>stats.joined\<close> as well.
\<close>

theorem login_joined_and_reset:
  assumes "this < length (objs w)"
  shows "stats (on_event this Login w) = (stats w)\<lparr>joined := joined (stats w) + 1\<rparr> \<and>
         reconnectAttempts (the_bot (on_event this Login w) this) = 0 \<and>
         connected (the_bot (on_event this Login w) this) \<and>
         stats (on_login_EnhancedBot this w) = (stats w)\<lparr>joined := joined (stats w) + 1\<rparr>"
  using assms by (simp add: on_login_def on_login_EnhancedBot_def Let_def)

lemma one_rejoining_sel:
  "length (objs one_rejoining) = 1"
  "reconnectAttempts (the_bot one_rejoining 0) = 1"
  "bot_obj (the_bot one_rejoining 0) = Some 1"
  "joined (stats one_rejoining) = 1"
  by (simp_all add: one_rejoining_def one_joined_def run_defs)

theorem login_joined_and_reset_witness:
  "0 < length (objs one_rejoining) \<and> reconnectAttempts (the_bot one_rejoining 0) = 1 \<and>
   joined (stats (on_event 0 Login one_rejoining)) = 2 \<and>
   reconnectAttempts (the_bot (on_event 0 Login one_rejoining) 0) = 0"
proof -
  have h: "0 < length (objs one_rejoining)" by (simp add: one_rejoining_sel)
  show ?thesis using h login_joined_and_reset [OF h]
    by (simp add: one_rejoining_sel)
qed


section \<open>Broadcast\<close>

lemma sendChat_connected:
  "connected (the_bot w m) \<Longrightarrow> bot_obj (the_bot w m) = Some h \<Longrightarrow>
   sendChat m message w =
     displayStats (upd_stats (\<lambda>s. s\<lparr>messagesSent := messagesSent s + 1\<rparr>) (emit (BotChat h message) w))"
  by (simp add: sendChat_def)

lemma broadcast_one_pair:
  "broadcast_one message m (c, w) =
     (if connected (the_bot w m) then (c + 1, sendChat m message w) else (c, w))"
  by (simp add: broadcast_one_def)

lemma fold_broadcast_one:
  assumes "list_all (\<lambda>m. connected (the_bot w m) \<longrightarrow> bot_obj (the_bot w m) \<noteq> None) ms"
  shows "\<exists>w'. fold (broadcast_one message) ms (c, w) =
            (c + length (filter (\<lambda>m. connected (the_bot w m)) ms), w') \<and>
          objs w' = objs w \<and> bots w' = bots w \<and> isRunning w' = isRunning w \<and>
          pending w' = pending w \<and>
          stats w' = (stats w)\<lparr>messagesSent := messagesSent (stats w) +
                        length (filter (\<lambda>m. connected (the_bot w m)) ms)\<rparr> \<and>
          chat_calls (effects w') = chat_calls (effects w) @
             map (\<lambda>m. (handle_of w m, message)) (filter (\<lambda>m. connected (the_bot w m)) ms)"
  using assms
proof (induction ms arbitrary: c w)
  case Nil
  then show ?case by simp
next
  case (Cons m ms)
  show ?case
  proof (cases "connected (the_bot w m)")
    case False
    with Cons.prems have "list_all (\<lambda>m. connected (the_bot w m) \<longrightarrow> bot_obj (the_bot w m) \<noteq> None) ms"
      by simp
    from Cons.IH[OF this, of c] False show ?thesis
      by (simp add: broadcast_one_pair)
  next
    case True
    with Cons.prems obtain h where h: "bot_obj (the_bot w m) = Some h" by auto
    let ?w1 = "sendChat m message w"
    have w1: "?w1 = displayStats (upd_stats (\<lambda>s. s\<lparr>messagesSent := messagesSent s + 1\<rparr>) (emit (BotChat h message) w))"
      using True h by (rule sendChat_connected)
    have tb: "the_bot ?w1 = the_bot w" by (rule ext) (simp add: w1)
    from Cons.prems have "list_all (\<lambda>m. connected (the_bot ?w1 m) \<longrightarrow> bot_obj (the_bot ?w1 m) \<noteq> None) ms"
      by (simp add: tb)
    from Cons.IH[OF this, of "c + 1"] obtain w' where
      w': "fold (broadcast_one message) ms (c + 1, ?w1) =
            (c + 1 + length (filter (\<lambda>m. connected (the_bot ?w1 m)) ms), w')"
      "objs w' = objs ?w1" "bots w' = bots ?w1" "isRunning w' = isRunning ?w1" "pending w' = pending ?w1"
      "stats w' = (stats ?w1)\<lparr>messagesSent := messagesSent (stats ?w1) +
                        length (filter (\<lambda>m. connected (the_bot ?w1 m)) ms)\<rparr>"
      "chat_calls (effects w') = chat_calls (effects ?w1) @
             map (\<lambda>m. (handle_of ?w1 m, message)) (filter (\<lambda>m. connected (the_bot ?w1 m)) ms)"
      by blast
    have ho: "handle_of ?w1 = handle_of w" by (rule ext) (simp add: handle_of_def tb)
    show ?thesis
      apply (rule exI[of _ w'])
      using True w' h
      apply (simp add: broadcast_one_pair tb ho)
      apply (simp add: w1 handle_of_def)
      done
  qed
qed

text \<open>
  C4.  For a text that is not empty, \<^verbatim>\<open>broadcast\<close> evaluates to \<^verbatim>\<open>undefined\<close>.  With
  \<open>n\<close> the number of connected members: the line it prints and the line it logs both
  report \<open>n\<close>, \<^verbatim>\<open>stats.messagesSent\<close> grows by \<open>n\<close> and no other counter changes, the chat
  calls it makes are one per connected member, in order, with the text, and no
  \<^verbatim>\<open>UltraBot\<close> object changes.  So a member that is not connected gets no call and adds
  nothing to a counter.  The hypothesis \<open>members_wf\<close> holds in every state the program
  reaches (\<open>members_wf_reachable\<close> below).
\<close>

theorem broadcast_counts_connected:
  assumes "message \<noteq> []" and "members_wf w"
  shows "fst (broadcast message w) = Undefined \<and>
     (let w' = snd (broadcast message w); n = length (connected_members w) in
        stats w' = (stats w)\<lparr>messagesSent := messagesSent (stats w) + n\<rparr> \<and>
        objs w' = objs w \<and>
        chat_calls (effects w') =
          chat_calls (effects w) @ map (\<lambda>m. (handle_of w m, message)) (connected_members w) \<and>
        drop (length (effects w') - 2) (effects w') =
          [ConsoleLog (Broadcasted_msg n message), SaveLog (Broadcasted_msg n message)])"
proof -
  from fold_broadcast_one[OF assms(2)[unfolded members_wf_def], of message 0]
  obtain w' where w': "fold (broadcast_one message) (bots w) (0, w) =
            (0 + length (filter (\<lambda>m. connected (the_bot w m)) (bots w)), w')"
          "objs w' = objs w"
          "stats w' = (stats w)\<lparr>messagesSent := messagesSent (stats w) +
                        length (filter (\<lambda>m. connected (the_bot w m)) (bots w))\<rparr>"
          "chat_calls (effects w') = chat_calls (effects w) @
             map (\<lambda>m. (handle_of w m, message)) (filter (\<lambda>m. connected (the_bot w m)) (bots w))"
    by blast
  show ?thesis using assms(1) w'
    by (simp add: broadcast_def connected_members_def Let_def)
qed

lemma three_bots_members:
  "members_wf three_bots" "connected_members three_bots = [0, 2]"
  "map (handle_of three_bots) [0, 2] = [0, 2]"
  by (simp_all add: members_wf_def connected_members_def handle_of_def three_bots_sel)

theorem broadcast_counts_connected_witness:
  "ascii ''hi'' \<noteq> [] \<and> members_wf three_bots \<and> length (bots three_bots) = 3 \<and>
   length (connected_members three_bots) = 2 \<and>
   messagesSent (stats (snd (broadcast (ascii ''hi'') three_bots))) = 2 \<and>
   chat_calls (effects (snd (broadcast (ascii ''hi'') three_bots))) =
     [(0, ascii ''hi''), (2, ascii ''hi'')]"
proof -
  have h1: "ascii ''hi'' \<noteq> []" by (simp add: ascii_def)
  have h2: "members_wf three_bots" by (rule three_bots_members)
  show ?thesis
    using h1 h2 broadcast_counts_connected [OF h1 h2] three_bots_members(3)
    by (simp add: Let_def three_bots_members(2) three_bots_sel)
qed

text \<open>
  C4 as stated fails: with two of three members connected, the call
  \<^verbatim>\<open>broadcast("hi")\<close> evaluates to \<^verbatim>\<open>undefined\<close>, not to 2.
\<close>

theorem broadcast_returns_undefined:
  "length (bots three_bots) = 3 \<and> length (connected_members three_bots) = 2 \<and>
   fst (broadcast (ascii ''hi'') three_bots) \<noteq> Num 2"
  by (simp add: three_bots_members(2) three_bots_sel broadcast_def split: prod.splits)

text \<open>
  C10.  With the empty text, \<^verbatim>\<open>broadcast\<close> and \<^verbatim>\<open>executeCommand\<close> return at their first
  statement: the state after the call is the state before it, so no member was called,
  no counter changed and nothing was printed or logged.
\<close>

theorem empty_text_noop:
  "broadcast [] w = (Undefined, w) \<and> executeCommand [] w = (Undefined, w)"
  by (simp add: broadcast_def executeCommand_def)

theorem empty_text_noop_witness:
  "snd (broadcast [] three_bots) = three_bots \<and> snd (executeCommand [] three_bots) = three_bots"
  using empty_text_noop [of three_bots] by simp


section \<open>Shutdown\<close>

lemma disconnect_sel [simp]:
  "stats (disconnect m w) = stats w" "isRunning (disconnect m w) = isRunning w"
  "bots (disconnect m w) = bots w" "pending (disconnect m w) = pending w"
  "length (objs (disconnect m w)) = length (objs w)"
  "bot_obj (the_bot (disconnect m w) i) = bot_obj (the_bot w i)"
  "quit_calls (effects (disconnect m w)) =
     quit_calls (effects w) @ (case bot_obj (the_bot w m) of Some h \<Rightarrow> [h] | None \<Rightarrow> [])"
  by (auto simp: disconnect_def split: option.splits)










section \<open>What a turn of the event loop preserves\<close>

lemma same_sessions_refl [simp]: "same_sessions w w"
  by (simp add: same_sessions_def)

lemma same_sessions_trans: "same_sessions w w' \<Longrightarrow> same_sessions w' w'' \<Longrightarrow> same_sessions w w''"
  unfolding same_sessions_def
  apply clarsimp
  apply (drule_tac x=i in spec)+
  apply auto
  done

lemma same_sessions_cap: "cap_ok w \<Longrightarrow> same_sessions w w' \<Longrightarrow> cap_ok w'"
  unfolding same_sessions_def cap_ok_def list_all_length
  apply clarsimp
  apply (drule_tac x=n in spec)+
  apply auto
  done


lemma ss_objs: "objs w' = objs w \<Longrightarrow> botIndex w' = botIndex w \<Longrightarrow> workingProxies w' = workingProxies w \<Longrightarrow> same_sessions w w'"
  by (simp add: same_sessions_def)

lemma ss_set_bot:
  "(this < length (objs w) \<Longrightarrow> proxy b = proxy (the_bot w this) \<and> maxReconnects b = maxReconnects (the_bot w this) \<and>
     (reconnectAttempts b \<le> reconnectAttempts (the_bot w this) \<or> reconnectAttempts b \<le> maxReconnects b))
   \<Longrightarrow> same_sessions w (set_bot this b w)"
  by (cases "this < length (objs w)") (auto simp: same_sessions_def nth_list_update the_bot_def)

lemma ss_cong:
  "same_sessions w w' \<Longrightarrow> objs w'' = objs w' \<Longrightarrow> botIndex w'' = botIndex w' \<Longrightarrow>
   workingProxies w'' = workingProxies w' \<Longrightarrow> same_sessions w w''"
  by (simp add: same_sessions_def)

lemma chat_sel2 [simp]:
  "botIndex (chat t x w) = botIndex w" "workingProxies (chat t x w) = workingProxies w"
  "maxBots (chat t x w) = maxBots w" "isRunning (chat t x w) = isRunning w"
  by (simp_all add: chat_def split: option.splits)

lemma ss_attemptReconnect: "same_sessions w (attemptReconnect this w)"
  apply (simp add: attemptReconnect_def Let_def)
  apply (rule conjI; clarsimp)
   apply (rule ss_objs; simp)
  apply (rule same_sessions_trans[OF ss_set_bot])
   prefer 2
   apply (rule ss_objs; simp)
  apply simp
  done

lemma ss_chat: "same_sessions w (chat this x w)"
  by (rule ss_objs) (simp_all add: chat_def split: option.splits)

lemma ss_on_event: "same_sessions w (on_event this ev w)"
proof (cases ev)
  case Login
  then show ?thesis
    by (cases "this < length (objs w)") (auto simp: same_sessions_def on_login_def Let_def nth_list_update the_bot_def)
next
  case (Spawn p)
  then show ?thesis
    by (cases "this < length (objs w)") (auto simp: same_sessions_def on_spawn_def Let_def nth_list_update the_bot_def)
next
  case (Health h f)
  then show ?thesis
    by (cases "this < length (objs w)") (auto simp: same_sessions_def on_health_def Let_def nth_list_update the_bot_def)
next
  case (Kicked r)
  have "same_sessions w (set_bot this ((the_bot w this)\<lparr>connected := False\<rparr>) w)"
    by (rule ss_set_bot) simp
  then show ?thesis using Kicked
    apply (simp add: on_kicked_def Let_def)
    apply (erule same_sessions_trans)
    apply (rule same_sessions_trans[OF _ ss_attemptReconnect])
    apply (rule ss_objs; simp)
    done
next
  case (End r)
  have "same_sessions w (set_bot this ((the_bot w this)\<lparr>connected := False\<rparr>) w)"
    by (rule ss_set_bot) simp
  then show ?thesis using End
    apply (simp add: on_end_def Let_def)
    apply (erule same_sessions_trans)
    apply (rule same_sessions_trans[OF _ ss_attemptReconnect])
    apply (rule ss_objs; simp)
    done
next
  case (Error m)
  then show ?thesis by (simp add: on_error_def ss_objs)
next
  case (Message t)
  let ?w1 = "set_bot this ((the_bot w this)\<lparr>messages := messages (the_bot w this) @ [t]\<rparr>) w"
  have s: "same_sessions w ?w1"
    by (rule ss_set_bot) simp
  have o: "objs (on_message this t w) = objs ?w1"
    and b: "botIndex (on_message this t w) = botIndex ?w1"
    and p: "workingProxies (on_message this t w) = workingProxies ?w1"
    by (simp_all add: on_message_def Let_def)
  show ?thesis unfolding Message on_event.simps by (rule ss_cong[OF s o b p])
next
  case ProxyConnectFailed
  then show ?thesis by (simp add: on_proxy_failed_def ss_objs)
qed

lemma take_pending_sel [simp]:
  "stats (take_pending d w) = stats w" "isRunning (take_pending d w) = isRunning w"
  "objs (take_pending d w) = objs w" "bots (take_pending d w) = bots w"
  "botIndex (take_pending d w) = botIndex w" "maxBots (take_pending d w) = maxBots w"
  "workingProxies (take_pending d w) = workingProxies w"
  "effects (take_pending d w) = effects w" "the_bot (take_pending d w) i = the_bot w i"
  "pending (take_pending d w) = remove1 d (pending w)"
  by (simp_all add: take_pending_def the_bot_def)

lemma ss_actualConnect: "same_sessions w (actualConnect this throws w)"
proof (cases throws)
  case True
  then show ?thesis by (simp add: actualConnect_def ss_objs)
next
  case False
  let ?w0 = "emit (CreateBot (next_handle w) (username (the_bot w this)) (proxy (the_bot w this)))
               (w\<lparr>next_handle := next_handle w + 1\<rparr>)"
  have a: "same_sessions w ?w0" by (rule ss_objs) simp_all
  have t: "the_bot ?w0 this = the_bot w this" by (simp add: the_bot_def)
  have b: "same_sessions ?w0 (set_bot this ((the_bot w this)\<lparr>bot_obj := Some (next_handle w)\<rparr>) ?w0)"
    by (rule ss_set_bot) (simp add: the_bot_def)
  show ?thesis using False
    apply (simp add: actualConnect_def Let_def)
    apply (rule ss_cong[OF same_sessions_trans[OF a b]])
      apply simp_all
    done
qed

lemma ss_connect: "same_sessions w (connect this w)"
  by (rule ss_objs) (simp_all add: connect_def)

lemma ss_sendChat: "same_sessions w (sendChat m x w)"
  by (rule ss_objs) (simp_all add: sendChat_def Let_def split: option.splits)

lemma ss_executeCommand_bot: "same_sessions w (executeCommand_bot m x w)"
  by (rule ss_objs) (simp_all add: executeCommand_bot_def Let_def split: option.splits)

lemma ss_disconnect: "same_sessions w (disconnect m w)"
proof (cases "bot_obj (the_bot w m)")
  case None
  then show ?thesis by (simp add: disconnect_def)
next
  case (Some h)
  have a: "same_sessions w (emit (BotQuit h) w)" by (rule ss_objs) simp_all
  have b: "same_sessions (emit (BotQuit h) w) (set_bot m ((the_bot w m)\<lparr>connected := False\<rparr>) (emit (BotQuit h) w))"
    by (rule ss_set_bot) simp
  show ?thesis using Some same_sessions_trans[OF a b] by (simp add: disconnect_def)
qed

lemma ss_fold_broadcast: "same_sessions w (snd (fold (broadcast_one x) ms (c, w)))"
proof (induction ms arbitrary: c w)
  case Nil
  then show ?case by simp
next
  case (Cons m ms)
  show ?case
    using Cons.IH[where c=c and w=w] Cons.IH[where c="c + 1" and w="sendChat m x w"]
      ss_sendChat[of w m x]
    by (auto simp: broadcast_one_pair intro: same_sessions_trans)
qed

lemma executeCommand_one_pair:
  "executeCommand_one x m (c, w) =
     (if connected (the_bot w m) then (c + 1, executeCommand_bot m x w) else (c, w))"
  by (simp add: executeCommand_one_def)

lemma ss_fold_executeCommand: "same_sessions w (snd (fold (executeCommand_one x) ms (c, w)))"
proof (induction ms arbitrary: c w)
  case Nil
  then show ?case by simp
next
  case (Cons m ms)
  show ?case
    using Cons.IH[where c=c and w=w] Cons.IH[where c="c + 1" and w="executeCommand_bot m x w"]
      ss_executeCommand_bot[of w m x]
    by (auto simp: executeCommand_one_pair intro: same_sessions_trans)
qed

lemma ss_fold_disconnect: "same_sessions w (fold disconnect ms w)"
proof (induction ms arbitrary: w)
  case Nil
  then show ?case by simp
next
  case (Cons m ms)
  show ?case using Cons.IH[of "disconnect m w"] ss_disconnect[of w m]
    by (auto intro: same_sessions_trans)
qed

lemma ss_broadcast: "same_sessions w (snd (broadcast x w))"
proof (cases "x = []")
  case True
  then show ?thesis by (simp add: broadcast_def)
next
  case False
  obtain c w1 where f: "fold (broadcast_one x) (bots w) (0, w) = (c, w1)" by fastforce
  with ss_fold_broadcast[of w x "bots w" 0] have "same_sessions w w1" by simp
  then show ?thesis using False f
    by (simp add: broadcast_def) (erule ss_cong; simp)
qed

lemma ss_executeCommand: "same_sessions w (snd (executeCommand x w))"
proof (cases "x = []")
  case True
  then show ?thesis by (simp add: executeCommand_def)
next
  case False
  obtain c w1 where f: "fold (executeCommand_one x) (bots w) (0, w) = (c, w1)" by fastforce
  with ss_fold_executeCommand[of w x "bots w" 0] have "same_sessions w w1" by simp
  then show ?thesis using False f
    by (simp add: executeCommand_def) (erule ss_cong; simp)
qed

lemma ss_stopAll: "same_sessions w (stopAll w)"
proof -
  let ?w2 = "(console_log Stopping_msg w)\<lparr>isRunning := False\<rparr>"
  have a: "same_sessions w ?w2" by (rule ss_objs) simp_all
  have b: "same_sessions ?w2 (fold disconnect (bots ?w2) ?w2)" by (rule ss_fold_disconnect)
  show ?thesis
    apply (simp add: stopAll_def Let_def)
    apply (rule ss_cong[OF same_sessions_trans[OF a b]])
      apply simp_all
    done
qed

lemma ss_step:
  "(\<And>d u jd rnd. i \<noteq> SpawnBotFires d u jd rnd) \<Longrightarrow> same_sessions w (step i w)"
proof (cases i)
  case (ReconnectFires this d)
  then show ?thesis
    by (auto simp: reconnect_timer_def intro!: same_sessions_trans[OF _ ss_connect] ss_objs)
next
  case (PingResolves this)
  then show ?thesis by (auto simp: ping_resolved_def intro!: ss_objs)
next
  case (PingRejects this throws)
  then show ?thesis
    by (auto simp: ping_rejected_def intro!: same_sessions_trans[OF _ ss_actualConnect] ss_objs)
next
  case (JoinDelayFires this d throws)
  then show ?thesis
    by (auto intro!: same_sessions_trans[OF _ ss_actualConnect] ss_objs)
next
  case (RandomActionFires this has_entity choice)
  then show ?thesis
    by (auto simp: randomAction_def Let_def split: option.splits random_action.splits
          intro!: ss_objs)
next
  case (ReleaseControlFires this d)
  then show ?thesis
    by (auto simp: release_control_def split: option.splits intro!: ss_objs)
next
  case FinalStatsFires
  then show ?thesis by (auto simp: showFinalStats_def intro!: ss_objs)
next
  case QuickHelpFires
  then show ?thesis by (auto intro!: ss_objs)
next
  case (Emits this ev)
  then show ?thesis by (simp add: ss_on_event)
next
  case (Say x)
  then show ?thesis by (simp add: ss_broadcast)
next
  case (Cmd x)
  then show ?thesis by (simp add: ss_executeCommand)
next
  case Stop
  then show ?thesis by (simp add: ss_stopAll)
next
  case (SpawnBotFires d u jd rnd)
  assume "\<And>d u jd rnd. i \<noteq> SpawnBotFires d u jd rnd"
  with SpawnBotFires show ?thesis by blast
qed

lemma spawnBot_cases:
  "spawnBot u jd rnd w = w' \<Longrightarrow>
   same_sessions w w' \<or>
   (isRunning w \<and> botIndex w < maxBots w \<and> botIndex w' = botIndex w + 1 \<and>
    workingProxies w' = workingProxies w \<and>
    objs w' = objs w @ [\<lparr>username = u, proxy = pick_proxy (workingProxies w) (botIndex w),
        index = botIndex w + 1, connected = False, messages = [], position = None, health = 20,
        food = 20, reconnectAttempts = 0, maxReconnects = 3, joinDelay = jd, bot_obj = None\<rparr>])"
proof (cases "\<not> isRunning w \<or> botIndex w \<ge> maxBots w")
  case True
  assume "spawnBot u jd rnd w = w'"
  with True have "same_sessions w w'"
    by (auto simp: spawnBot_def intro!: ss_objs)
  then show ?thesis ..
next
  case False
  assume "spawnBot u jd rnd w = w'"
  with False have "isRunning w \<and> botIndex w < maxBots w \<and> botIndex w' = botIndex w + 1 \<and>
    workingProxies w' = workingProxies w \<and>
    objs w' = objs w @ [\<lparr>username = u, proxy = pick_proxy (workingProxies w) (botIndex w),
        index = botIndex w + 1, connected = False, messages = [], position = None, health = 20,
        food = 20, reconnectAttempts = 0, maxReconnects = 3, joinDelay = jd, bot_obj = None\<rparr>]"
    by (auto simp: spawnBot_def new_UltraBot_def connect_def Let_def)
  then show ?thesis ..
qed

lemma cap_ok_step: "cap_ok w \<Longrightarrow> cap_ok (step i w)"
proof (cases "\<exists>d u jd rnd. i = SpawnBotFires d u jd rnd")
  case False
  then have "same_sessions w (step i w)" by (intro ss_step) blast
  then show "cap_ok w \<Longrightarrow> cap_ok (step i w)" by (rule same_sessions_cap[rotated])
next
  case True
  then obtain d u jd rnd where i: "i = SpawnBotFires d u jd rnd" by blast
  assume c: "cap_ok w"
  show ?thesis
  proof (cases "SpawnBotTimer d \<in> set (pending w)")
    case False
    then show ?thesis using c i by simp
  next
    case True
    let ?w0 = "take_pending (SpawnBotTimer d) w"
    have c0: "cap_ok ?w0" using c by (simp add: cap_ok_def)
    from spawnBot_cases[OF refl, where u=u and jd=jd and rnd=rnd and w="?w0"] show ?thesis
    proof
      assume "same_sessions ?w0 (spawnBot u jd rnd ?w0)"
      with c0 show ?thesis using i True by (simp add: same_sessions_cap)
    next
      assume "isRunning ?w0 \<and> botIndex ?w0 < maxBots ?w0 \<and>
        botIndex (spawnBot u jd rnd ?w0) = botIndex ?w0 + 1 \<and>
        workingProxies (spawnBot u jd rnd ?w0) = workingProxies ?w0 \<and>
        objs (spawnBot u jd rnd ?w0) = objs ?w0 @ [\<lparr>username = u, proxy = pick_proxy (workingProxies ?w0) (botIndex ?w0),
        index = botIndex ?w0 + 1, connected = False, messages = [], position = None, health = 20,
        food = 20, reconnectAttempts = 0, maxReconnects = 3, joinDelay = jd, bot_obj = None\<rparr>]"
      then show ?thesis using c i True by (simp add: cap_ok_def)
    qed
  qed
qed


lemma cap_ok_run: "cap_ok w \<Longrightarrow> cap_ok (run ins w)"
  unfolding run_def by (induction ins arbitrary: w) (simp_all add: cap_ok_step)



section \<open>Connected sessions have a bot\<close>

lemma keeps_wf_refl [simp]: "keeps_wf w w"
  by (simp add: keeps_wf_def)

lemma keeps_wf_trans: "keeps_wf w w' \<Longrightarrow> keeps_wf w' w'' \<Longrightarrow> keeps_wf w w''"
proof -
  assume a: "keeps_wf w w'" and b: "keeps_wf w' w''"
  have 1: "length (objs w'') = length (objs w)" using a b by (simp add: keeps_wf_def)
  have 2: "set (bots w'') \<subseteq> set (bots w)" using a b unfolding keeps_wf_def by blast
  have 3: "connected (objs w'' ! i) \<longrightarrow> bot_obj (objs w'' ! i) \<noteq> None"
    if "i < length (objs w)" "connected (objs w ! i) \<longrightarrow> bot_obj (objs w ! i) \<noteq> None" for i
  proof -
    from a that have "connected (objs w' ! i) \<longrightarrow> bot_obj (objs w' ! i) \<noteq> None"
      unfolding keeps_wf_def by blast
    moreover have "i < length (objs w')" using a that(1) by (simp add: keeps_wf_def)
    ultimately show ?thesis using b unfolding keeps_wf_def by blast
  qed
  from 1 2 3 show ?thesis unfolding keeps_wf_def by blast
qed

lemma keeps_wf_sessions: "sessions_wf w \<Longrightarrow> keeps_wf w w' \<Longrightarrow> sessions_wf w'"
proof -
  assume a: "sessions_wf w" and b: "keeps_wf w w'"
  have 1: "list_all (\<lambda>b. connected b \<longrightarrow> bot_obj b \<noteq> None) (objs w')"
    using a b unfolding sessions_wf_def keeps_wf_def list_all_length by simp
  have "\<forall>m\<in>set (bots w). m < length (objs w)"
    using a unfolding sessions_wf_def list_all_iff by simp
  then have 2: "list_all (\<lambda>m. m < length (objs w')) (bots w')"
    using b unfolding keeps_wf_def list_all_iff by auto
  from 1 2 show ?thesis by (simp add: sessions_wf_def)
qed

lemma keeps_wf_frame: "objs w' = objs w \<Longrightarrow> bots w' = bots w \<Longrightarrow> keeps_wf w w'"
  by (simp add: keeps_wf_def)

lemma keeps_wf_cong:
  "keeps_wf w w' \<Longrightarrow> objs w'' = objs w' \<Longrightarrow> bots w'' = bots w' \<Longrightarrow> keeps_wf w w''"
  by (simp add: keeps_wf_def)

lemma keeps_wf_set_bot:
  "(this < length (objs w) \<Longrightarrow>
      connected (the_bot w this) \<longrightarrow> bot_obj (the_bot w this) \<noteq> None \<Longrightarrow>
      connected b \<longrightarrow> bot_obj b \<noteq> None)
   \<Longrightarrow> keeps_wf w (set_bot this b w)"
  by (cases "this < length (objs w)") (auto simp: keeps_wf_def nth_list_update the_bot_def)

lemma keeps_wf_attemptReconnect: "keeps_wf w (attemptReconnect this w)"
proof (cases "maxReconnects (the_bot w this) \<le> reconnectAttempts (the_bot w this)")
  case True
  then show ?thesis by (auto simp: attemptReconnect_def intro!: keeps_wf_frame)
next
  case False
  let ?b = "(the_bot w this)\<lparr>reconnectAttempts := reconnectAttempts (the_bot w this) + 1\<rparr>"
  have a: "keeps_wf w (set_bot this ?b w)" by (rule keeps_wf_set_bot) simp
  show ?thesis using False
    by (simp add: attemptReconnect_def Let_def) (rule keeps_wf_cong[OF a]; simp)
qed

lemma keeps_wf_on_event:
  "(this < length (objs w) \<Longrightarrow> bot_obj (the_bot w this) \<noteq> None)
   \<Longrightarrow> keeps_wf w (on_event this ev w)"
proof (cases ev)
  case Login
  assume g: "this < length (objs w) \<Longrightarrow> bot_obj (the_bot w this) \<noteq> None"
  let ?w1 = "set_bot this ((the_bot w this)\<lparr>connected := True\<rparr>) w"
  have a: "keeps_wf w ?w1" by (rule keeps_wf_set_bot) (use g in simp)
  let ?w5 = "saveLog (Bot_msg (index (the_bot ?w1 this)) Connected_msg)
      (log this Connected_msg (displayStats (upd_stats (\<lambda>s. s\<lparr>joined := joined s + 1\<rparr>) ?w1)))"
  have b: "keeps_wf w ?w5" by (rule keeps_wf_cong[OF a]) simp_all
  have c: "keeps_wf ?w5 (set_bot this ((the_bot ?w5 this)\<lparr>reconnectAttempts := 0\<rparr>) ?w5)"
    by (rule keeps_wf_set_bot) simp
  show ?thesis using Login keeps_wf_trans[OF b c] by (simp add: on_login_def Let_def)
next
  case (Spawn p)
  have a: "keeps_wf w (set_bot this ((the_bot w this)\<lparr>position := Some p\<rparr>) w)"
    by (rule keeps_wf_set_bot) simp
  show ?thesis using Spawn
    by (simp add: on_spawn_def Let_def) (rule keeps_wf_cong[OF a]; simp)
next
  case (Health h f)
  have a: "keeps_wf w (set_bot this ((the_bot w this)\<lparr>health := h, food := f\<rparr>) w)"
    by (rule keeps_wf_set_bot) simp
  show ?thesis using Health
    by (auto simp: on_health_def Let_def intro: keeps_wf_cong[OF a] a)
next
  case (Kicked r)
  let ?w1 = "set_bot this ((the_bot w this)\<lparr>connected := False\<rparr>) w"
  let ?w5 = "saveLog (Bot_msg (index (the_bot ?w1 this)) (Kicked_msg r)) (log this (Kicked_msg r)
      (displayStats (upd_stats (\<lambda>s. s\<lparr>kicked := kicked s + 1\<rparr>) ?w1)))"
  have q1: "keeps_wf w ?w1" by (rule keeps_wf_set_bot) simp
  have q5: "keeps_wf w ?w5" by (rule keeps_wf_cong[OF q1]) simp_all
  from keeps_wf_trans[OF q5 keeps_wf_attemptReconnect]
  show ?thesis using Kicked by (simp add: on_kicked_def Let_def)
next
  case (End r)
  let ?w1 = "set_bot this ((the_bot w this)\<lparr>connected := False\<rparr>) w"
  let ?r = "(case r of None \<Rightarrow> ascii ''Unknown''
               | Some t \<Rightarrow> if t = [] then ascii ''Unknown'' else t)"
  let ?w4 = "log this (Ended_msg ?r)
      (displayStats (upd_stats (\<lambda>s. s\<lparr>timeout := timeout s + 1\<rparr>) ?w1))"
  have q1: "keeps_wf w ?w1" by (rule keeps_wf_set_bot) simp
  have q4: "keeps_wf w ?w4" by (rule keeps_wf_cong[OF q1]) simp_all
  from keeps_wf_trans[OF q4 keeps_wf_attemptReconnect]
  show ?thesis using End by (simp add: on_end_def Let_def)
next
  case (Error m)
  then show ?thesis by (auto simp: on_error_def intro!: keeps_wf_frame)
next
  case (Message t)
  let ?w1 = "set_bot this ((the_bot w this)\<lparr>messages := messages (the_bot w this) @ [t]\<rparr>) w"
  have q1: "keeps_wf w ?w1" by (rule keeps_wf_set_bot) simp
  have o: "objs (on_message this t w) = objs ?w1"
    and p: "bots (on_message this t w) = bots ?w1"
    by (simp_all add: on_message_def Let_def chat_def split: option.splits)
  show ?thesis unfolding Message on_event.simps by (rule keeps_wf_cong[OF q1 o p])
next
  case ProxyConnectFailed
  then show ?thesis by (auto simp: on_proxy_failed_def intro!: keeps_wf_frame)
qed

lemma keeps_wf_take_pending: "keeps_wf w (take_pending d w)"
  by (rule keeps_wf_frame) simp_all

lemma keeps_wf_actualConnect: "keeps_wf w (actualConnect that throws w)"
proof (cases throws)
  case True
  then show ?thesis by (auto simp: actualConnect_def intro!: keeps_wf_frame)
next
  case False
  let ?w0 = "emit (CreateBot (next_handle w) (username (the_bot w that)) (proxy (the_bot w that)))
               (w\<lparr>next_handle := next_handle w + 1\<rparr>)"
  have a: "keeps_wf w ?w0" by (rule keeps_wf_frame) simp_all
  have b: "keeps_wf ?w0 (set_bot that ((the_bot w that)\<lparr>bot_obj := Some (next_handle w)\<rparr>) ?w0)"
    by (rule keeps_wf_set_bot) simp
  show ?thesis using False
    apply (simp add: actualConnect_def Let_def)
    apply (rule keeps_wf_cong[OF keeps_wf_trans[OF a b]])
     apply simp_all
    done
qed

lemma keeps_wf_sendChat: "keeps_wf w (sendChat m x w)"
  by (rule keeps_wf_frame) (auto simp: sendChat_def Let_def split: option.splits if_splits)

lemma keeps_wf_executeCommand_bot: "keeps_wf w (executeCommand_bot m x w)"
  by (rule keeps_wf_frame)
    (auto simp: executeCommand_bot_def Let_def split: option.splits if_splits)

lemma keeps_wf_disconnect: "keeps_wf w (disconnect m w)"
proof (cases "bot_obj (the_bot w m)")
  case None
  then show ?thesis by (simp add: disconnect_def)
next
  case (Some h)
  have a: "keeps_wf w (emit (BotQuit h) w)" by (rule keeps_wf_frame) simp_all
  have b: "keeps_wf (emit (BotQuit h) w)
             (set_bot m ((the_bot w m)\<lparr>connected := False\<rparr>) (emit (BotQuit h) w))"
    by (rule keeps_wf_set_bot) simp
  show ?thesis using Some keeps_wf_trans[OF a b] by (simp add: disconnect_def)
qed

lemma keeps_wf_fold_broadcast: "keeps_wf w (snd (fold (broadcast_one x) ms (c, w)))"
proof (induction ms arbitrary: c w)
  case Nil
  then show ?case by simp
next
  case (Cons m ms)
  show ?case
    using Cons.IH[where c=c and w=w] Cons.IH[where c="c + 1" and w="sendChat m x w"]
      keeps_wf_sendChat[of w m x]
    by (auto simp: broadcast_one_pair intro: keeps_wf_trans)
qed

lemma keeps_wf_fold_executeCommand: "keeps_wf w (snd (fold (executeCommand_one x) ms (c, w)))"
proof (induction ms arbitrary: c w)
  case Nil
  then show ?case by simp
next
  case (Cons m ms)
  show ?case
    using Cons.IH[where c=c and w=w] Cons.IH[where c="c + 1" and w="executeCommand_bot m x w"]
      keeps_wf_executeCommand_bot[of w m x]
    by (auto simp: executeCommand_one_pair intro: keeps_wf_trans)
qed

lemma keeps_wf_fold_disconnect: "keeps_wf w (fold disconnect ms w)"
proof (induction ms arbitrary: w)
  case Nil
  then show ?case by simp
next
  case (Cons m ms)
  show ?case using Cons.IH[of "disconnect m w"] keeps_wf_disconnect[of w m]
    by (auto intro: keeps_wf_trans)
qed

lemma keeps_wf_broadcast: "keeps_wf w (snd (broadcast x w))"
proof (cases "x = []")
  case True
  then show ?thesis by (simp add: broadcast_def)
next
  case False
  obtain c w1 where f: "fold (broadcast_one x) (bots w) (0, w) = (c, w1)" by fastforce
  with keeps_wf_fold_broadcast[of w x "bots w" 0] have "keeps_wf w w1" by simp
  then show ?thesis using False f
    by (simp add: broadcast_def) (erule keeps_wf_cong; simp)
qed

lemma keeps_wf_executeCommand: "keeps_wf w (snd (executeCommand x w))"
proof (cases "x = []")
  case True
  then show ?thesis by (simp add: executeCommand_def)
next
  case False
  obtain c w1 where f: "fold (executeCommand_one x) (bots w) (0, w) = (c, w1)" by fastforce
  with keeps_wf_fold_executeCommand[of w x "bots w" 0] have "keeps_wf w w1" by simp
  then show ?thesis using False f
    by (simp add: executeCommand_def) (erule keeps_wf_cong; simp)
qed

lemma keeps_wf_stopAll: "keeps_wf w (stopAll w)"
proof -
  let ?w2 = "(console_log Stopping_msg w)\<lparr>isRunning := False\<rparr>"
  have a: "keeps_wf w ?w2" by (rule keeps_wf_frame) simp_all
  have b: "keeps_wf ?w2 (fold disconnect (bots ?w2) ?w2)" by (rule keeps_wf_fold_disconnect)
  have c: "keeps_wf w (fold disconnect (bots ?w2) ?w2)" by (rule keeps_wf_trans[OF a b])
  have d: "keeps_wf (fold disconnect (bots ?w2) ?w2)
             (enqueue FinalStatsTimer ((fold disconnect (bots ?w2) ?w2)\<lparr>bots := []\<rparr>))"
    by (simp add: keeps_wf_def)
  show ?thesis
    unfolding stopAll_def Let_def by (rule keeps_wf_trans[OF c d])
qed

lemma sessions_wf_spawnBot: "sessions_wf w \<Longrightarrow> sessions_wf (spawnBot u jd rnd w)"
proof (cases "\<not> isRunning w \<or> botIndex w \<ge> maxBots w")
  case True
  assume "sessions_wf w"
  with True show ?thesis by (auto simp: spawnBot_def sessions_wf_def)
next
  case False
  assume "sessions_wf w"
  with False show ?thesis
    by (auto simp: spawnBot_def new_UltraBot_def connect_def Let_def sessions_wf_def
          list_all_iff)
qed

lemma sessions_wf_step: "sessions_wf w \<Longrightarrow> sessions_wf (step i w)"
proof (cases i)
  case (ReconnectFires that x)
  assume "sessions_wf w"
  then show ?thesis using ReconnectFires
    by (auto simp: reconnect_timer_def connect_def sessions_wf_def)
next
  case (PingResolves that)
  assume "sessions_wf w"
  then show ?thesis using PingResolves
    by (auto simp: ping_resolved_def sessions_wf_def)
next
  case (PingRejects that throws)
  assume "sessions_wf w"
  then show ?thesis using PingRejects
    by (auto simp: ping_rejected_def
          intro!: keeps_wf_sessions[OF _ keeps_wf_trans[OF keeps_wf_take_pending keeps_wf_actualConnect]])
next
  case (JoinDelayFires that x throws)
  assume "sessions_wf w"
  then show ?thesis using JoinDelayFires
    by (auto intro!: keeps_wf_sessions[OF _ keeps_wf_trans[OF keeps_wf_take_pending keeps_wf_actualConnect]])
next
  case (RandomActionFires that has_entity choice)
  assume "sessions_wf w"
  then show ?thesis using RandomActionFires
    by (auto simp: randomAction_def Let_def sessions_wf_def
          split: option.splits random_action.splits)
next
  case (ReleaseControlFires that d)
  assume "sessions_wf w"
  then show ?thesis using ReleaseControlFires
    by (auto simp: release_control_def sessions_wf_def split: option.splits)
next
  case FinalStatsFires
  assume "sessions_wf w"
  then show ?thesis using FinalStatsFires
    by (auto simp: showFinalStats_def sessions_wf_def)
next
  case (SpawnBotFires x u jd rnd)
  assume "sessions_wf w"
  then have "sessions_wf (take_pending (SpawnBotTimer x) w)" by (simp add: sessions_wf_def)
  then show ?thesis using SpawnBotFires \<open>sessions_wf w\<close> by (simp add: sessions_wf_spawnBot)
next
  case QuickHelpFires
  assume "sessions_wf w"
  then show ?thesis using QuickHelpFires by (auto simp: sessions_wf_def)
next
  case (Emits that ev)
  assume "sessions_wf w"
  then show ?thesis using Emits
    by (auto intro!: keeps_wf_sessions[OF _ keeps_wf_on_event])
next
  case (Say x)
  assume "sessions_wf w"
  then show ?thesis using Say by (simp add: keeps_wf_sessions[OF _ keeps_wf_broadcast])
next
  case (Cmd x)
  assume "sessions_wf w"
  then show ?thesis using Cmd by (simp add: keeps_wf_sessions[OF _ keeps_wf_executeCommand])
next
  case Stop
  assume "sessions_wf w"
  then show ?thesis using Stop by (simp add: keeps_wf_sessions[OF _ keeps_wf_stopAll])
qed

lemma sessions_wf_run: "sessions_wf w \<Longrightarrow> sessions_wf (run ins w)"
  unfolding run_def by (induction ins arbitrary: w) (simp_all add: sessions_wf_step)

lemma sessions_wf_init: "sessions_wf (init_world n dl found ps)"
  by (simp add: sessions_wf_def init_world_def)

lemma sessions_wf_members: "sessions_wf w \<Longrightarrow> members_wf w"
  by (auto simp: sessions_wf_def members_wf_def list_all_iff the_bot_def)

lemma members_wf_reachable: "members_wf (run ins (init_world n dl found ps))"
  by (rule sessions_wf_members[OF sessions_wf_run[OF sessions_wf_init]])


section \<open>The reconnect cap\<close>

lemma cap_ok_init: "cap_ok (init_world n dl found ps)"
  by (simp add: cap_ok_def init_world_def)

lemma at_cap_ending:
  assumes "maxReconnects (the_bot w this) \<le> reconnectAttempts (the_bot w this)"
    and "is_ending ev"
  shows "pending (on_event this ev w) = pending w"
    "reconnects (stats (on_event this ev w)) = reconnects (stats w)"
    "reconnectAttempts (the_bot (on_event this ev w) this) = reconnectAttempts (the_bot w this)"
    "maxReconnects (the_bot (on_event this ev w) this) = maxReconnects (the_bot w this)"
    "bot_obj (the_bot (on_event this ev w) this) = bot_obj (the_bot w this)"
    "length (objs (on_event this ev w)) = length (objs w)"
    "this < length (objs w) \<Longrightarrow> \<not> connected (the_bot (on_event this ev w) this)"
  using assms
  by (cases ev; simp add: is_ending_def on_kicked_def on_end_def attemptReconnect_def Let_def)+

lemma quiet_refl [simp]: "quiet this w w"
  by (simp add: quiet_def)

lemma quiet_trans: "quiet this w w' \<Longrightarrow> quiet this w' w'' \<Longrightarrow> quiet this w w''"
proof -
  assume a: "quiet this w w'" and b: "quiet this w' w''"
  have 1: "length (objs w) \<le> length (objs w'')"
    using a b unfolding quiet_def by (meson order_trans)
  have 2: "connected (the_bot w'' this) \<longrightarrow> connected (the_bot w this)"
    using a b unfolding quiet_def by blast
  have 3: "maxReconnects (the_bot w'' this) = maxReconnects (the_bot w this)"
    using a b unfolding quiet_def by (elim conjE) (erule (1) trans)
  have 4: "reconnectAttempts (the_bot w'' this) = reconnectAttempts (the_bot w this)"
    using a b unfolding quiet_def by (elim conjE) (erule (1) trans)
  have 5: "\<forall>d\<in>set (pending w''). wakes this d \<longrightarrow> d \<in> set (pending w)"
    using a b unfolding quiet_def by blast
  from 1 2 3 4 5 show ?thesis unfolding quiet_def by blast
qed

lemma quiet_dormant: "dormant this w \<Longrightarrow> quiet this w w' \<Longrightarrow> dormant this w'"
  unfolding quiet_def dormant_def list_ex_iff by auto

lemma quiet_frame:
  "objs w' = objs w \<Longrightarrow> (\<And>d. d \<in> set (pending w') \<Longrightarrow> wakes this d \<Longrightarrow> d \<in> set (pending w))
   \<Longrightarrow> quiet this w w'"
  by (simp add: quiet_def the_bot_def)

lemma quiet_cong:
  "quiet this w w' \<Longrightarrow> objs w'' = objs w' \<Longrightarrow> pending w'' = pending w' \<Longrightarrow> quiet this w w''"
  by (simp add: quiet_def the_bot_def)

lemma quiet_set_bot:
  "(that = this \<Longrightarrow> (connected b \<longrightarrow> connected (the_bot w this)) \<and>
      maxReconnects b = maxReconnects (the_bot w this) \<and>
      reconnectAttempts b = reconnectAttempts (the_bot w this))
   \<Longrightarrow> quiet this w (set_bot that b w)"
  by (cases "that = this") (auto simp: quiet_def)

lemma quiet_attemptReconnect:
  "(that = this \<Longrightarrow> maxReconnects (the_bot w this) \<le> reconnectAttempts (the_bot w this))
   \<Longrightarrow> quiet this w (attemptReconnect that w)"
  apply (cases "that = this")
  apply (auto simp: quiet_def attemptReconnect_def Let_def wakes_def)
  done

lemma quiet_on_event:
  "(that = this \<Longrightarrow> ev \<noteq> Login \<and> maxReconnects (the_bot w this) \<le> reconnectAttempts (the_bot w this))
   \<Longrightarrow> quiet this w (on_event that ev w)"
proof (cases ev)
  case Login
  assume "that = this \<Longrightarrow> ev \<noteq> Login \<and> maxReconnects (the_bot w this) \<le> reconnectAttempts (the_bot w this)"
  with Login have "that \<noteq> this" by blast
  then show ?thesis using Login by (auto simp: quiet_def on_login_def Let_def)
next
  case (Spawn p)
  then show ?thesis by (cases "that = this") (auto simp: quiet_def on_spawn_def Let_def wakes_def)
next
  case (Health h f)
  then show ?thesis by (cases "that = this") (auto simp: quiet_def on_health_def Let_def)
next
  case (Kicked r)
  assume a: "that = this \<Longrightarrow> ev \<noteq> Login \<and> maxReconnects (the_bot w this) \<le> reconnectAttempts (the_bot w this)"
  let ?w1 = "set_bot that ((the_bot w that)\<lparr>connected := False\<rparr>) w"
  let ?w5 = "saveLog (Bot_msg (index (the_bot ?w1 that)) (Kicked_msg r)) (log that (Kicked_msg r)
      (displayStats (upd_stats (\<lambda>s. s\<lparr>kicked := kicked s + 1\<rparr>) ?w1)))"
  have q1: "quiet this w ?w1" by (rule quiet_set_bot) simp
  have q5: "quiet this w ?w5" by (rule quiet_cong[OF q1]) simp_all
  have "quiet this ?w5 (attemptReconnect that ?w5)"
    by (rule quiet_attemptReconnect) (use a in \<open>auto\<close>)
  with q5 have "quiet this w (attemptReconnect that ?w5)" by (rule quiet_trans)
  then show ?thesis using Kicked by (simp add: on_kicked_def Let_def)
next
  case (End r)
  assume a: "that = this \<Longrightarrow> ev \<noteq> Login \<and> maxReconnects (the_bot w this) \<le> reconnectAttempts (the_bot w this)"
  let ?w1 = "set_bot that ((the_bot w that)\<lparr>connected := False\<rparr>) w"
  let ?r = "(case r of None \<Rightarrow> ascii ''Unknown''
               | Some t \<Rightarrow> if t = [] then ascii ''Unknown'' else t)"
  let ?w4 = "log that (Ended_msg ?r)
      (displayStats (upd_stats (\<lambda>s. s\<lparr>timeout := timeout s + 1\<rparr>) ?w1))"
  have q1: "quiet this w ?w1" by (rule quiet_set_bot) simp
  have q4: "quiet this w ?w4" by (rule quiet_cong[OF q1]) simp_all
  have "quiet this ?w4 (attemptReconnect that ?w4)"
    by (rule quiet_attemptReconnect) (use a in \<open>auto\<close>)
  with q4 have "quiet this w (attemptReconnect that ?w4)" by (rule quiet_trans)
  then show ?thesis using End by (simp add: on_end_def Let_def)
next
  case (Error m)
  then show ?thesis by (auto simp: on_error_def intro!: quiet_frame)
next
  case (Message t)
  let ?w1 = "set_bot that ((the_bot w that)\<lparr>messages := messages (the_bot w that) @ [t]\<rparr>) w"
  have q1: "quiet this w ?w1" by (rule quiet_set_bot) simp
  have o: "objs (on_message that t w) = objs ?w1"
    and p: "pending (on_message that t w) = pending ?w1"
    by (simp_all add: on_message_def Let_def)
  show ?thesis unfolding Message on_event.simps by (rule quiet_cong[OF q1 o p])
next
  case ProxyConnectFailed
  then show ?thesis by (auto simp: on_proxy_failed_def intro!: quiet_frame)
qed

lemma in_remove1D: "x \<in> set (remove1 y xs) \<Longrightarrow> x \<in> set xs"
  by (meson notin_set_remove1)

lemma quiet_take_pending: "quiet this w (take_pending d w)"
  by (rule quiet_frame) (auto dest: in_remove1D)

lemma quiet_actualConnect: "quiet this w (actualConnect that throws w)"
proof (cases throws)
  case True
  then show ?thesis by (auto simp: actualConnect_def intro!: quiet_frame)
next
  case False
  let ?w0 = "emit (CreateBot (next_handle w) (username (the_bot w that)) (proxy (the_bot w that)))
               (w\<lparr>next_handle := next_handle w + 1\<rparr>)"
  have a: "quiet this w ?w0" by (rule quiet_frame) simp_all
  have b: "quiet this ?w0 (set_bot that ((the_bot w that)\<lparr>bot_obj := Some (next_handle w)\<rparr>) ?w0)"
    by (rule quiet_set_bot) (simp add: the_bot_def)
  show ?thesis using False
    apply (simp add: actualConnect_def Let_def)
    apply (rule quiet_cong[OF quiet_trans[OF a b]])
     apply simp_all
    done
qed

lemma quiet_connect: "that \<noteq> this \<Longrightarrow> quiet this w (connect that w)"
  by (rule quiet_frame) (auto simp: connect_def wakes_def)

lemma quiet_sendChat: "quiet this w (sendChat m x w)"
  by (rule quiet_frame) (auto simp: sendChat_def Let_def split: option.splits if_splits)

lemma quiet_executeCommand_bot: "quiet this w (executeCommand_bot m x w)"
  by (rule quiet_frame)
    (auto simp: executeCommand_bot_def Let_def split: option.splits if_splits)

lemma quiet_disconnect: "quiet this w (disconnect m w)"
proof (cases "bot_obj (the_bot w m)")
  case None
  then show ?thesis by (simp add: disconnect_def)
next
  case (Some h)
  have a: "quiet this w (emit (BotQuit h) w)" by (rule quiet_frame) simp_all
  have b: "quiet this (emit (BotQuit h) w)
             (set_bot m ((the_bot w m)\<lparr>connected := False\<rparr>) (emit (BotQuit h) w))"
    by (rule quiet_set_bot) simp
  show ?thesis using Some quiet_trans[OF a b] by (simp add: disconnect_def)
qed

lemma quiet_fold_broadcast: "quiet this w (snd (fold (broadcast_one x) ms (c, w)))"
proof (induction ms arbitrary: c w)
  case Nil
  then show ?case by simp
next
  case (Cons m ms)
  show ?case
    using Cons.IH[where c=c and w=w] Cons.IH[where c="c + 1" and w="sendChat m x w"]
      quiet_sendChat[of this w m x]
    by (auto simp: broadcast_one_pair intro: quiet_trans)
qed

lemma quiet_fold_executeCommand: "quiet this w (snd (fold (executeCommand_one x) ms (c, w)))"
proof (induction ms arbitrary: c w)
  case Nil
  then show ?case by simp
next
  case (Cons m ms)
  show ?case
    using Cons.IH[where c=c and w=w] Cons.IH[where c="c + 1" and w="executeCommand_bot m x w"]
      quiet_executeCommand_bot[of this w m x]
    by (auto simp: executeCommand_one_pair intro: quiet_trans)
qed

lemma quiet_fold_disconnect: "quiet this w (fold disconnect ms w)"
proof (induction ms arbitrary: w)
  case Nil
  then show ?case by simp
next
  case (Cons m ms)
  show ?case using Cons.IH[of "disconnect m w"] quiet_disconnect[of this w m]
    by (auto intro: quiet_trans)
qed

lemma quiet_broadcast: "quiet this w (snd (broadcast x w))"
proof (cases "x = []")
  case True
  then show ?thesis by (simp add: broadcast_def)
next
  case False
  obtain c w1 where f: "fold (broadcast_one x) (bots w) (0, w) = (c, w1)" by fastforce
  with quiet_fold_broadcast[of this w x "bots w" 0] have "quiet this w w1" by simp
  then show ?thesis using False f
    by (simp add: broadcast_def) (erule quiet_cong; simp)
qed

lemma quiet_executeCommand: "quiet this w (snd (executeCommand x w))"
proof (cases "x = []")
  case True
  then show ?thesis by (simp add: executeCommand_def)
next
  case False
  obtain c w1 where f: "fold (executeCommand_one x) (bots w) (0, w) = (c, w1)" by fastforce
  with quiet_fold_executeCommand[of this w x "bots w" 0] have "quiet this w w1" by simp
  then show ?thesis using False f
    by (simp add: executeCommand_def) (erule quiet_cong; simp)
qed

lemma quiet_stopAll: "quiet this w (stopAll w)"
proof -
  let ?w2 = "(console_log Stopping_msg w)\<lparr>isRunning := False\<rparr>"
  have a: "quiet this w ?w2" by (rule quiet_frame) simp_all
  have b: "quiet this ?w2 (fold disconnect (bots ?w2) ?w2)" by (rule quiet_fold_disconnect)
  have c: "quiet this w (fold disconnect (bots ?w2) ?w2)" by (rule quiet_trans[OF a b])
  show ?thesis
    unfolding stopAll_def Let_def
    by (rule quiet_trans[OF c]) (rule quiet_frame; simp add: wakes_def; auto simp: wakes_def)
qed

lemma quiet_spawnBot: "this < length (objs w) \<Longrightarrow> quiet this w (spawnBot u jd rnd w)"
proof (cases "\<not> isRunning w \<or> botIndex w \<ge> maxBots w")
  case True
  then show ?thesis by (auto simp: spawnBot_def wakes_def intro!: quiet_frame)
next
  case False
  assume "this < length (objs w)"
  with False show ?thesis
    by (auto simp: spawnBot_def new_UltraBot_def connect_def Let_def quiet_def the_bot_def
          nth_append wakes_def)
qed

lemma dormant_take_pending: "dormant this w \<Longrightarrow> dormant this (take_pending d w)"
  by (rule quiet_dormant[OF _ quiet_take_pending])

lemma dormant_not_pending:
  "dormant this w \<Longrightarrow> wakes this d \<Longrightarrow> d \<notin> set (pending w)"
  by (auto simp: dormant_def list_ex_iff)

lemma quiet_step:
  assumes d: "dormant this w" and i: "i \<noteq> Emits this Login"
  shows "quiet this w (step i w)"
proof (cases i)
  case (ReconnectFires that x)
  show ?thesis
  proof (cases "that = this")
    case True
    with dormant_not_pending[OF d, of "ReconnectTimer this x"] ReconnectFires
    show ?thesis by (simp add: wakes_def)
  next
    case False
    then show ?thesis using ReconnectFires
      by (auto simp: reconnect_timer_def
            intro!: quiet_trans[OF quiet_take_pending quiet_connect] quiet_take_pending)
  qed
next
  case (PingResolves that)
  show ?thesis
  proof (cases "that = this")
    case True
    with dormant_not_pending[OF d, of "PingInFlight this"] PingResolves
    show ?thesis by (simp add: wakes_def)
  next
    case False
    have "quiet this (take_pending (PingInFlight that) w)
            (ping_resolved that (take_pending (PingInFlight that) w))"
      using False by (auto simp: ping_resolved_def wakes_def intro!: quiet_frame)
    then show ?thesis using PingResolves
      by (auto intro: quiet_trans[OF quiet_take_pending])
  qed
next
  case (PingRejects that throws)
  then show ?thesis
    by (auto simp: ping_rejected_def intro!: quiet_trans[OF quiet_take_pending quiet_actualConnect])
next
  case (JoinDelayFires that x throws)
  then show ?thesis
    by (auto intro!: quiet_trans[OF quiet_take_pending quiet_actualConnect])
next
  case (RandomActionFires that has_entity choice)
  have "quiet this (take_pending (RandomActionTimer that) w)
          (randomAction that has_entity choice (take_pending (RandomActionTimer that) w))"
    by (rule quiet_frame)
      (auto simp: randomAction_def Let_def wakes_def
         split: option.splits if_splits random_action.splits)
  then show ?thesis using RandomActionFires
    by (auto intro: quiet_trans[OF quiet_take_pending])
next
  case (ReleaseControlFires that d)
  have "quiet this (take_pending (ReleaseControlTimer that d) w)
          (release_control that d (take_pending (ReleaseControlTimer that d) w))"
    by (rule quiet_frame) (auto simp: release_control_def split: option.splits)
  then show ?thesis using ReleaseControlFires
    by (auto intro: quiet_trans[OF quiet_take_pending])
next
  case FinalStatsFires
  have "quiet this (take_pending FinalStatsTimer w) (showFinalStats (take_pending FinalStatsTimer w))"
    by (rule quiet_frame) (simp_all add: showFinalStats_def)
  then show ?thesis using FinalStatsFires
    by (auto intro: quiet_trans[OF quiet_take_pending])
next
  case (SpawnBotFires x u jd rnd)
  have "this < length (objs (take_pending (SpawnBotTimer x) w))"
    using d by (simp add: dormant_def)
  from quiet_spawnBot[OF this] show ?thesis using SpawnBotFires
    by (auto intro: quiet_trans[OF quiet_take_pending])
next
  case QuickHelpFires
  have "quiet this (take_pending QuickHelpTimer w)
          (console_log QuickHelp_msg (take_pending QuickHelpTimer w))"
    by (rule quiet_frame) simp_all
  then show ?thesis using QuickHelpFires
    by (auto intro: quiet_trans[OF quiet_take_pending])
next
  case (Emits that ev)
  have "quiet this w (on_event that ev w)"
    by (rule quiet_on_event) (use d i Emits in \<open>auto simp: dormant_def\<close>)
  then show ?thesis using Emits by simp
next
  case (Say x)
  then show ?thesis by (simp add: quiet_broadcast)
next
  case (Cmd x)
  then show ?thesis by (simp add: quiet_executeCommand)
next
  case Stop
  then show ?thesis by (simp add: quiet_stopAll)
qed

lemma dormant_run:
  "dormant this w \<Longrightarrow> Emits this Login \<notin> set ins \<Longrightarrow> dormant this (run ins w)"
  unfolding run_def
proof (induction ins arbitrary: w)
  case Nil
  then show ?case by simp
next
  case (Cons i ins)
  from Cons.prems have "dormant this (step i w)"
    by (intro quiet_dormant[OF _ quiet_step]) auto
  with Cons show ?case by simp
qed

lemma dormant_after_ending:
  assumes "this < length (objs w)"
    and "maxReconnects (the_bot w this) \<le> reconnectAttempts (the_bot w this)"
    and "\<not> list_ex (wakes this) (pending w)" and "is_ending ev"
  shows "dormant this (on_event this ev w)"
  using assms at_cap_ending[OF assms(2,4)] by (simp add: dormant_def)

lemma exhausted_sel:
  "length (objs exhausted) = 1"
  "reconnectAttempts (the_bot exhausted 0) = 3" "maxReconnects (the_bot exhausted 0) = 3"
  "pending exhausted = []" "reconnects (stats exhausted) = 3"
  by (simp_all add: exhausted_def one_joined_def run_defs)

text \<open>
  C3, amended.  In every state the program reaches from its start, whatever the turns of
  the event loop are, no session has \<^verbatim>\<open>reconnectAttempts\<close> above its \<^verbatim>\<open>maxReconnects\<close>.
  When a session whose \<^verbatim>\<open>reconnectAttempts\<close> has reached \<^verbatim>\<open>maxReconnects\<close> is kicked or its
  connection ends, the handler sets no timer and changes neither \<^verbatim>\<open>reconnectAttempts\<close>
  nor \<^verbatim>\<open>stats.reconnects\<close>, and the session is not connected.  The session stays so
  (not connected, at the cap, with no connection attempt pending) only if no reconnect
  timer, ping or join delay of the session was pending at that moment, and then through
  every later sequence of turns in which its bot does not log in.  A connection attempt
  that was pending still runs, and a login sets \<^verbatim>\<open>reconnectAttempts\<close> to 0.
\<close>

theorem reconnect_cap:
  "cap_ok (run ins (init_world n dl found ps)) \<and>
   (this < length (objs w) \<and>
    maxReconnects (the_bot w this) \<le> reconnectAttempts (the_bot w this) \<and> is_ending ev \<longrightarrow>
      pending (on_event this ev w) = pending w \<and>
      reconnects (stats (on_event this ev w)) = reconnects (stats w) \<and>
      reconnectAttempts (the_bot (on_event this ev w) this) =
        reconnectAttempts (the_bot w this) \<and>
      \<not> connected (the_bot (on_event this ev w) this) \<and>
      (\<not> list_ex (wakes this) (pending w) \<and> Emits this Login \<notin> set later \<longrightarrow>
         dormant this (run later (on_event this ev w))))"
proof -
  have 1: "cap_ok (run ins (init_world n dl found ps))"
    by (rule cap_ok_run[OF cap_ok_init])
  have 2: "pending (on_event this ev w) = pending w \<and>
      reconnects (stats (on_event this ev w)) = reconnects (stats w) \<and>
      reconnectAttempts (the_bot (on_event this ev w) this) =
        reconnectAttempts (the_bot w this) \<and>
      \<not> connected (the_bot (on_event this ev w) this) \<and>
      (\<not> list_ex (wakes this) (pending w) \<and> Emits this Login \<notin> set later \<longrightarrow>
         dormant this (run later (on_event this ev w)))"
    if a: "this < length (objs w)"
      and b: "maxReconnects (the_bot w this) \<le> reconnectAttempts (the_bot w this)"
      and c: "is_ending ev"
  proof -
    have "dormant this (run later (on_event this ev w))"
      if "\<not> list_ex (wakes this) (pending w)" and "Emits this Login \<notin> set later"
      using dormant_run[OF dormant_after_ending[OF a b that(1) c] that(2)] .
    with at_cap_ending[OF b c] a show ?thesis by simp
  qed
  from 1 2 show ?thesis by blast
qed

lemma run_append: "run ys (run xs w) = run (xs @ ys) w"
  by (simp add: run_def)

lemma exhausted_run:
  "exhausted =
     run [SpawnBotFires 1000 (ascii ''Storm1'') 0 0, PingRejects 0 False, Emits 0 Login,
          Emits 0 (End None), ReconnectFires 0 5000, PingRejects 0 False,
          Emits 0 (End None), ReconnectFires 0 10000, PingRejects 0 False,
          Emits 0 (Kicked (ascii ''bye'')), ReconnectFires 0 15000, PingRejects 0 False]
       (init_world 1 3000 0 [])"
  unfolding exhausted_def one_joined_def run_append by (simp only: append.simps)

theorem reconnect_cap_witness:
  "cap_ok exhausted \<and>
   0 < length (objs exhausted) \<and> reconnectAttempts (the_bot exhausted 0) = 3 \<and>
   maxReconnects (the_bot exhausted 0) = 3 \<and> is_ending (End None) \<and>
   \<not> list_ex (wakes 0) (pending exhausted) \<and>
   Emits 0 Login \<notin> set [Say (ascii ''hi''), Emits 0 (End None), Stop] \<and>
   pending (on_event 0 (End None) exhausted) = [] \<and>
   reconnects (stats (on_event 0 (End None) exhausted)) = 3 \<and>
   dormant 0 (run [Say (ascii ''hi''), Emits 0 (End None), Stop]
                (on_event 0 (End None) exhausted))"
proof -
  have h: "0 < length (objs exhausted) \<and>
      maxReconnects (the_bot exhausted 0) \<le> reconnectAttempts (the_bot exhausted 0) \<and>
      is_ending (End None)"
    by (simp add: exhausted_sel is_ending_def)
  have k: "\<not> list_ex (wakes 0) (pending exhausted) \<and>
      Emits 0 Login \<notin> set [Say (ascii ''hi''), Emits 0 (End None), Stop]"
    by (simp add: exhausted_sel)
  from reconnect_cap [of
      "[SpawnBotFires 1000 (ascii ''Storm1'') 0 0, PingRejects 0 False, Emits 0 Login,
        Emits 0 (End None), ReconnectFires 0 5000, PingRejects 0 False,
        Emits 0 (End None), ReconnectFires 0 10000, PingRejects 0 False,
        Emits 0 (Kicked (ascii ''bye'')), ReconnectFires 0 15000, PingRejects 0 False]"
      1 3000 0 "[]" 0 exhausted "End None"
      "[Say (ascii ''hi''), Emits 0 (End None), Stop]"] h k
  show ?thesis
    unfolding exhausted_run[symmetric] by (simp add: exhausted_sel is_ending_def)
qed

text \<open>
  C3 as stated fails: a session that has made two of its three reconnect attempts is
  kicked, which counts the third attempt and sets its timer, and then the connection
  closes, which finds the session at the cap and sets no timer.  The timer of the kick
  fires all the same: the session connects, logs in and has \<^verbatim>\<open>reconnectAttempts\<close> 0, and
  when its connection ends again a fourth reconnect is scheduled.
\<close>

theorem reconnects_after_cap:
  "reconnectAttempts (the_bot kicked_at_cap 0) = 3 \<and>
   maxReconnects (the_bot kicked_at_cap 0) = 3 \<and>
   pending kicked_at_cap = [ReconnectTimer 0 15000] \<and>
   pending (run [Emits 0 (End None)] kicked_at_cap) = [ReconnectTimer 0 15000] \<and>
   reconnectAttempts (the_bot (run [Emits 0 (End None)] kicked_at_cap) 0) = 3 \<and>
   \<not> connected (the_bot (run [Emits 0 (End None)] kicked_at_cap) 0) \<and>
   connected (the_bot (run [Emits 0 (End None), ReconnectFires 0 15000, PingRejects 0 False,
     Emits 0 Login] kicked_at_cap) 0) \<and>
   reconnectAttempts (the_bot (run [Emits 0 (End None), ReconnectFires 0 15000,
     PingRejects 0 False, Emits 0 Login] kicked_at_cap) 0) = 0 \<and>
   pending (run [Emits 0 (End None), ReconnectFires 0 15000, PingRejects 0 False,
     Emits 0 Login, Emits 0 (End None)] kicked_at_cap) = [ReconnectTimer 0 5000] \<and>
   reconnects (stats (run [Emits 0 (End None), ReconnectFires 0 15000, PingRejects 0 False,
     Emits 0 Login, Emits 0 (End None)] kicked_at_cap)) = 4"
  by (simp add: kicked_at_cap_def one_joined_def run_defs)


section \<open>Assigning proxies\<close>












section \<open>Collecting proxies\<close>

lemma digits1_iff:
  "digits1 s = Some r \<longleftrightarrow>
     (\<exists>a. digit_run a \<and> s = a @ r \<and> (r = [] \<or> \<not> is_digit (hd r)))"
proof
  assume h: "digits1 s = Some r"
  then obtain c s' where s: "s = c # s'" and c: "is_digit c" and r: "r = dropWhile is_digit s'"
    by (auto simp: digits1_def split: list.splits if_splits)
  let ?a = "c # takeWhile is_digit s'"
  have "digit_run ?a" using c by (auto simp: digit_run_def list_all_iff dest: set_takeWhileD)
  moreover have "s = ?a @ r" using s r by simp
  moreover have "r = [] \<or> \<not> is_digit (hd r)" using r hd_dropWhile[of is_digit s'] by auto
  ultimately show "\<exists>a. digit_run a \<and> s = a @ r \<and> (r = [] \<or> \<not> is_digit (hd r))" by blast
next
  assume "\<exists>a. digit_run a \<and> s = a @ r \<and> (r = [] \<or> \<not> is_digit (hd r))"
  then obtain a where a: "digit_run a" "s = a @ r" and r: "r = [] \<or> \<not> is_digit (hd r)" by blast
  from a(1) obtain c a' where ca: "a = c # a'" "is_digit c" "\<forall>x\<in>set a'. is_digit x"
    by (cases a) (auto simp: digit_run_def list_all_iff)
  have "dropWhile is_digit (a' @ r) = dropWhile is_digit r"
    using ca(3) by (simp add: dropWhile_append2)
  also have "\<dots> = r" using r by (simp add: dropWhile_eq_self_iff)
  finally show "digits1 s = Some r" using a(2) ca by (simp add: digits1_def)
qed

lemma lit_iff: "lit c s = Some r \<longleftrightarrow> s = c # r"
  by (auto simp: lit_def split: list.splits if_splits)

lemma not_digit_sep: "\<not> is_digit 46" "\<not> is_digit 58"
  by (simp_all add: is_digit_def)

lemma group_then_iff:
  "\<not> is_digit x \<Longrightarrow> group_then x s = Some r \<longleftrightarrow> (\<exists>a. digit_run a \<and> s = a @ x # r)"
  by (auto simp: group_then_def bind_eq_Some_conv digits1_iff lit_iff)

lemma digits1_end: "digits1 s = Some [] \<longleftrightarrow> digit_run s"
  by (simp add: digits1_iff)

lemma test_ip_port_iff: "test_ip_port s \<longleftrightarrow> ip_port_shape s"
  unfolding test_ip_port_def ip_port_shape_def
  by (simp add: bind_eq_Some_conv group_then_iff not_digit_sep digits1_end) blast

lemma startsWith_single: "startsWith s [c] = (s \<noteq> [] \<and> hd s = c)"
  by (cases s) auto

lemma includes_single: "includes_str s [c] = (c \<in> set s)"
  by (induction s) (auto simp: startsWith_single)

lemma set_trim: "set (trim s) \<subseteq> set s"
proof -
  have "set (trim s) = set (dropWhile is_space (rev (dropWhile is_space s)))"
    by (simp add: trim_def)
  also have "\<dots> \<subseteq> set (rev (dropWhile is_space s))" by (auto dest: set_dropWhileD)
  also have "\<dots> \<subseteq> set s" by (auto dest: set_dropWhileD)
  finally show ?thesis .
qed

lemma shape_has_colon: "ip_port_shape s \<Longrightarrow> 58 \<in> set s"
  by (auto simp: ip_port_shape_def)

lemma set_parse_proxies:
  "set (parse_proxies d) = {trim l |l. l \<in> set (split_nl d) \<and> ip_port_shape (trim l)}"
proof -
  have c: "includes_str l (ascii '':'')" if "ip_port_shape (trim l)" for l
    using shape_has_colon[OF that] set_trim[of l] by (auto simp: ascii_def includes_single)
  show ?thesis
    by (auto simp: parse_proxies_def test_ip_port_iff c)
qed

lemma uniq_fold:
  "distinct acc \<Longrightarrow>
   distinct (fold (\<lambda>x acc. if x \<in> set acc then acc else acc @ [x]) xs acc) \<and>
   set (fold (\<lambda>x acc. if x \<in> set acc then acc else acc @ [x]) xs acc) = set acc \<union> set xs"
  by (induction xs arbitrary: acc) auto

lemma uniq_props: "distinct (uniq xs)" "set (uniq xs) = set xs"
  using uniq_fold[of "[]" xs] by (simp_all add: uniq_def)

lemma fetchFromUrl_simps:
  "fetchFromUrl None = None" "fetchFromUrl (Some d) = Some (parse_proxies d)"
  by (simp_all add: fetchFromUrl_def)

lemma endpoints_simps:
  "endpoints [] = {}"
  "endpoints (None # rs) = endpoints rs"
  "endpoints (Some d # rs) = set (parse_proxies d) \<union> endpoints rs"
  by (auto simp: endpoints_def set_parse_proxies)

lemma try_source_simps:
  "try_source lim None acc = acc"
  "try_source lim (Some d) acc =
     (if length (parse_proxies d) \<le> lim then acc @ parse_proxies d else acc)"
  by (simp_all add: try_source_def push_spread_def fetchFromUrl_simps)

lemma sources_within_simps:
  "sources_within lim [] = True"
  "sources_within lim (None # rs) = sources_within lim rs"
  "sources_within lim (Some d # rs) =
     (length (parse_proxies d) \<le> lim \<and> sources_within lim rs)"
  by (simp_all add: sources_within_def)

lemma set_collect_subset:
  "set (fold (try_source lim) responses acc) \<subseteq> set acc \<union> endpoints responses"
proof (induction responses arbitrary: acc)
  case Nil
  then show ?case by simp
next
  case (Cons r rs)
  show ?case
    using Cons.IH[of "try_source lim r acc"]
    by (cases r) (auto simp: endpoints_simps try_source_simps split: if_splits)
qed

lemma set_collect:
  "sources_within lim responses \<Longrightarrow>
   set (fold (try_source lim) responses acc) = set acc \<union> endpoints responses"
proof (induction responses arbitrary: acc)
  case Nil
  then show ?case by (simp add: endpoints_simps)
next
  case (Cons r rs)
  then show ?case
    by (cases r) (auto simp: endpoints_simps try_source_simps sources_within_simps)
qed

text \<open>
  What \<^verbatim>\<open>fetchProxiesWithProgress\<close> returns has no duplicates, holds only trimmed lines of
  answered sources that have the shape digits, dot, digits, dot, digits, dot, digits,
  colon, digits, and has the length stored in \<^verbatim>\<open>stats.proxiesFound\<close>; a source whose
  request fails changes nothing.  When every answered source fits into one call of
  \<^verbatim>\<open>push\<close>, the list holds all those lines.
\<close>

lemma collect_props:
  "distinct (fst (fetchProxiesWithProgress lim responses w))"
  "set (fst (fetchProxiesWithProgress lim responses w)) \<subseteq> endpoints responses"
  "proxiesFound (stats (snd (fetchProxiesWithProgress lim responses w))) =
     length (fst (fetchProxiesWithProgress lim responses w))"
  "fetchProxiesWithProgress lim (None # responses) w = fetchProxiesWithProgress lim responses w"
  using set_collect_subset[of lim responses "[]"]
  by (simp_all add: fetchProxiesWithProgress_def Let_def uniq_props try_source_simps)

lemma collect_within_limit:
  assumes "sources_within lim responses"
  shows "set (fst (fetchProxiesWithProgress lim responses w)) = endpoints responses"
    and "length (fst (fetchProxiesWithProgress lim responses w)) = card (endpoints responses)"
    and "proxiesFound (stats (snd (fetchProxiesWithProgress lim responses w))) =
           card (endpoints responses)"
proof -
  show s: "set (fst (fetchProxiesWithProgress lim responses w)) = endpoints responses"
    using set_collect[OF assms, of "[]"]
    by (simp add: fetchProxiesWithProgress_def Let_def uniq_props)
  show l: "length (fst (fetchProxiesWithProgress lim responses w)) = card (endpoints responses)"
    using distinct_card[OF collect_props(1), of lim responses w] s by simp
  show "proxiesFound (stats (snd (fetchProxiesWithProgress lim responses w))) =
          card (endpoints responses)"
    using l by (simp add: collect_props(3))
qed

lemma example_sources_found:
  "fst (fetchProxiesWithProgress 125000 [Some source_a, None, Some source_b] w) =
     [ascii ''1.2.3.4:80'', ascii ''5.6.7.8:1080'']"
  by (simp add: fetchProxiesWithProgress_def try_source_def push_spread_def fetchFromUrl_simps
        parse_proxies_def uniq_def
        source_a_def source_b_def ascii_def trim_def is_space_def test_ip_port_def group_then_def
        digits1_def lit_def is_digit_def Let_def)

text \<open>A source whose lines are more than one call takes is left out whole.\<close>

lemma oversize_dropped:
  "lim < length (parse_proxies d) \<Longrightarrow>
   fetchProxiesWithProgress lim (Some d # responses) w = fetchProxiesWithProgress lim responses w"
  by (simp add: fetchProxiesWithProgress_def try_source_simps)

lemma split_nl_line: "10 \<notin> set l \<Longrightarrow> split_nl (l @ 10 # s) = l # split_nl s"
  by (induction l) auto

lemma split_nl_repeat:
  "10 \<notin> set l \<Longrightarrow> split_nl (concat (replicate n (l @ [10])) @ s) = replicate n l @ split_nl s"
  by (induction n) (simp_all add: split_nl_line)

lemma parse_repeated: "parse_proxies (repeated_source n) = replicate n (ascii ''1.2.3.4:80'')"
proof -
  have a: "split_nl (repeated_source n) = replicate n (ascii ''1.2.3.4:80'') @ [[]]"
    using split_nl_repeat[of "ascii ''1.2.3.4:80''" n "[]"]
    by (simp add: repeated_source_def ascii_def)
  have b: "includes_str (ascii ''1.2.3.4:80'') (ascii '':'')"
    "trim (ascii ''1.2.3.4:80'') = ascii ''1.2.3.4:80''"
    "test_ip_port (ascii ''1.2.3.4:80'')"
    by (simp_all add: ascii_def trim_def is_space_def test_ip_port_def group_then_def
          digits1_def lit_def is_digit_def)
  have c: "filter (\<lambda>line. includes_str line (ascii '':'')) [[]] = []"
    by (simp add: ascii_def)
  show ?thesis
    unfolding parse_proxies_def a by (simp only: filter_append filter_replicate b c if_True
      append_Nil2 map_replicate)
qed

lemma length_parse_repeated: "length (parse_proxies (repeated_source n)) = n"
  by (simp add: parse_repeated)

lemma endpoints_repeated:
  "0 < n \<Longrightarrow> endpoints (Some (repeated_source n) # responses) =
     insert (ascii ''1.2.3.4:80'') (endpoints responses)"
  by (simp add: endpoints_simps parse_repeated)

lemma endpoints_source_b: "endpoints [Some source_b] = {ascii ''5.6.7.8:1080''}"
  by (simp add: endpoints_simps parse_proxies_def source_b_def ascii_def trim_def is_space_def
        test_ip_port_def group_then_def digits1_def lit_def is_digit_def)

lemma collect_source_b:
  "fst (fetchProxiesWithProgress 125000 [Some source_b] w) = [ascii ''5.6.7.8:1080'']"
  by (simp add: fetchProxiesWithProgress_def try_source_def push_spread_def fetchFromUrl_simps
        parse_proxies_def uniq_def source_b_def ascii_def trim_def is_space_def
        test_ip_port_def group_then_def digits1_def lit_def is_digit_def Let_def)

text \<open>
  C7.  The claim holds whenever each answered source fits into one call of \<^verbatim>\<open>push\<close>
  (\<open>collect_within_limit\<close>), and the code does not keep it beyond: with an engine that
  takes 125000 arguments in a call, a source that answers 200000 lines
  \<^verbatim>\<open>1.2.3.4:80\<close>, every one of the strict shape, is left out whole, as if its request had
  failed.  Of the three sources here, the first answers those lines, the request of
  the second fails and the third answers \<^verbatim>\<open>5.6.7.8:1080\<close> and two malformed lines: the
  distinct lines of the shape are \<^verbatim>\<open>1.2.3.4:80\<close> and \<^verbatim>\<open>5.6.7.8:1080\<close>, two of them, and
  \<^verbatim>\<open>fetchProxiesWithProgress\<close> returns only the second and stores 1 in
  \<^verbatim>\<open>stats.proxiesFound\<close>.
\<close>

theorem oversize_source_dropped:
  "length (parse_proxies (repeated_source 200000)) = 200000 \<and>
   endpoints [Some (repeated_source 200000), None, Some source_b] =
     {ascii ''1.2.3.4:80'', ascii ''5.6.7.8:1080''} \<and>
   fst (fetchProxiesWithProgress 125000 [Some (repeated_source 200000), None, Some source_b] w) =
     [ascii ''5.6.7.8:1080''] \<and>
   proxiesFound (stats (snd (fetchProxiesWithProgress 125000
     [Some (repeated_source 200000), None, Some source_b] w))) = 1"
proof -
  have d: "fetchProxiesWithProgress 125000 [Some (repeated_source 200000), None, Some source_b] w =
      fetchProxiesWithProgress 125000 [Some source_b] w"
    by (simp add: oversize_dropped length_parse_repeated collect_props(4))
  have e: "endpoints [Some (repeated_source 200000), None, Some source_b] =
      {ascii ''1.2.3.4:80'', ascii ''5.6.7.8:1080''}"
    by (simp add: endpoints_repeated endpoints_simps(2) endpoints_source_b)
  show ?thesis
    unfolding d e by (simp add: length_parse_repeated collect_props(3) collect_source_b)
qed


section \<open>Deferred work after shutdown\<close>

text \<open>The callback of the reconnect timer does nothing once \<^verbatim>\<open>isRunning\<close> is false, and
  \<^verbatim>\<open>spawnBot\<close> creates no bot then.\<close>

lemma reconnect_timer_checks_running:
  "\<not> isRunning w \<Longrightarrow> step (ReconnectFires this d) w = w \<or>
     step (ReconnectFires this d) w = take_pending (ReconnectTimer this d) w"
  by (simp add: reconnect_timer_def)

lemma spawnBot_checks_running: "\<not> isRunning w \<Longrightarrow> objs (spawnBot u jd rnd w) = objs w"
  by (simp add: spawnBot_def)

text \<open>
  C8.  The code does not do what is claimed: the callbacks \<^verbatim>\<open>connect\<close> attaches to the ping, and
  the join-delay timer after a successful ping, call \<^verbatim>\<open>actualConnect\<close> without looking
  at \<^verbatim>\<open>isRunning\<close>.  A bot is spawned, the operator stops the pool while its ping is in
  flight, and the ping comes back: \<^verbatim>\<open>mineflayer.createBot\<close> is called after the shutdown,
  on both paths, and \<^verbatim>\<open>stats.sent\<close> goes from 0 to 1.
\<close>

theorem connect_after_shutdown:
  "\<not> isRunning stop_then_ping_fails \<and> bots stop_then_ping_fails = [] \<and>
   effects stop_then_ping_fails =
     [PingSocket 0, ConsoleLog (Progress_msg 1 1), ConsoleLog Stopping_msg,
      CreateBot 0 (ascii ''Storm1'') None,
      DisplayStats \<lparr>sent = 1, joined = 0, kicked = 0, timeout = 0, failed = 0,
        proxiesFound = 0, proxiesWorking = 0, messagesSent = 0, commandsExecuted = 0,
        reconnects = 0\<rparr>] \<and>
   \<not> isRunning stop_then_ping_succeeds \<and>
   effects stop_then_ping_succeeds = effects stop_then_ping_fails \<and>
   bot_obj (the_bot stop_then_ping_succeeds 0) = Some 0"
  by (simp add: stop_then_ping_fails_def stop_then_ping_succeeds_def run_defs)

end
